theory Spec2Isabelle
  imports Complex_Main "HOL-Library.Sublist" "HOL-Library.Multiset"
begin

section \<open>Common helpers\<close>

text \<open>Python's \<open>str(n)\<close> for a non-negative integer: its decimal digits.\<close>

definition digit_char :: "nat \<Rightarrow> char" where
  "digit_char d = ''0123456789'' ! d"

fun str_nat :: "nat \<Rightarrow> string" where
  "str_nat n = (if n < 10 then [digit_char n] else str_nat (n div 10) @ [digit_char (n mod 10)])"

declare str_nat.simps [simp del]

definition str_int :: "int \<Rightarrow> string" where
  "str_int i = (if i < 0 then CHR ''-'' # str_nat (nat (- i)) else str_nat (nat i))"


text \<open>
  A Python \<open>str\<close> is a sequence of Unicode code points, modelled as a list of naturals;
  \<open>ustr\<close> turns a literal into one.
\<close>

type_synonym ustring = "nat list"

definition ustr :: "string \<Rightarrow> ustring" where
  "ustr s = map of_char s"

text \<open>
  The character classes of Python's \<open>str\<close> methods and of the \<open>re\<close> module on \<open>str\<close>
  patterns are those of the Unicode database of the interpreter. Below 128 they are
  fixed and written out here; from 128 on they are the tables \<open>ucd\<close>, a parameter:
  \<open>uc_alnum\<close> is \<open>str.isalnum\<close> of the character, \<open>uc_space\<close> is \<open>str.isspace\<close>,
  \<open>uc_decimal\<close> is \<open>str.isdecimal\<close>, \<open>uc_digit\<close> is \<open>str.isdigit\<close>, and
  \<open>uc_lower s i\<close> is what \<open>str.lower\<close> writes for the character at position \<open>i\<close> of
  \<open>s\<close> (one to three code points; for the capital sigma it depends on the neighbours).
\<close>

record unicode =
  uc_alnum :: "nat \<Rightarrow> bool"
  uc_space :: "nat \<Rightarrow> bool"
  uc_decimal :: "nat \<Rightarrow> bool"
  uc_digit :: "nat \<Rightarrow> bool"
  uc_lower :: "ustring \<Rightarrow> nat \<Rightarrow> ustring"

text \<open>
  \<open>\s\<close>, \<open>str.isspace\<close>, and the separators of \<open>str.split()\<close> and \<open>str.strip()\<close>:
  below 128, tab to carriage return, the four separators 28 to 31, and the space.
\<close>

definition is_space :: "unicode \<Rightarrow> nat \<Rightarrow> bool" where
  "is_space ucd c =
     (if c < 128 then (9 \<le> c \<and> c \<le> 13) \<or> (28 \<le> c \<and> c \<le> 32) else uc_space ucd c)"

text \<open>\<open>\d\<close>: the decimal digits.\<close>

definition is_decimal :: "unicode \<Rightarrow> nat \<Rightarrow> bool" where
  "is_decimal ucd c = (if c < 128 then 48 \<le> c \<and> c \<le> 57 else uc_decimal ucd c)"

text \<open>\<open>str.isdigit\<close> of one character.\<close>

definition is_digit :: "unicode \<Rightarrow> nat \<Rightarrow> bool" where
  "is_digit ucd c = (if c < 128 then 48 \<le> c \<and> c \<le> 57 else uc_digit ucd c)"

text \<open>The class \<open>[A-Z]\<close>.\<close>

definition is_upper :: "nat \<Rightarrow> bool" where
  "is_upper c = (65 \<le> c \<and> c \<le> 90)"

text \<open>\<open>\w\<close>: an alphanumeric character or the underscore.\<close>

definition is_word :: "unicode \<Rightarrow> nat \<Rightarrow> bool" where
  "is_word ucd c =
     (if c < 128
      then (48 \<le> c \<and> c \<le> 57) \<or> (65 \<le> c \<and> c \<le> 90) \<or> c = 95 \<or> (97 \<le> c \<and> c \<le> 122)
      else uc_alnum ucd c)"

text \<open>\<open>str.lower\<close>: below 128 the capitals \<open>A\<close> to \<open>Z\<close> move up by 32.\<close>

definition lower_at :: "unicode \<Rightarrow> ustring \<Rightarrow> nat \<Rightarrow> ustring" where
  "lower_at ucd s i =
     (let c = s ! i in
      if c < 128 then [if 65 \<le> c \<and> c \<le> 90 then c + 32 else c] else uc_lower ucd s i)"

definition lower :: "unicode \<Rightarrow> ustring \<Rightarrow> ustring" where
  "lower ucd s = concat (map (lower_at ucd s) [0..<length s])"

text \<open>
  \<open>str.split()\<close> without arguments: the maximal runs of non-whitespace characters, in
  order. \<open>cur\<close> is the run being read.
\<close>

fun split_acc :: "unicode \<Rightarrow> ustring \<Rightarrow> ustring \<Rightarrow> ustring list" where
  "split_acc ucd cur [] = (if cur = [] then [] else [cur])"
| "split_acc ucd cur (c # cs) =
     (if is_space ucd c then (if cur = [] then split_acc ucd [] cs else cur # split_acc ucd [] cs)
      else split_acc ucd (cur @ [c]) cs)"

definition split_ws :: "unicode \<Rightarrow> ustring \<Rightarrow> ustring list" where
  "split_ws ucd s = split_acc ucd [] s"

text \<open>\<open>str.strip()\<close>: leading and trailing whitespace removed.\<close>

definition strip :: "unicode \<Rightarrow> ustring \<Rightarrow> ustring" where
  "strip ucd s = rev (dropWhile (is_space ucd) (rev (dropWhile (is_space ucd) s)))"

section \<open>Clustering scripts: the data model\<close>

text \<open>
  The three clustering scripts (\<open>Claim Clustering_Report.py\<close>, \<open>Predicate with WordNet.py\<close>,
  \<open>Cluster Assessment.py\<close>) keep their state in an \<open>EmbeddingVisualizer\<close> object. Its
  numeric data are NumPy floats; they are modelled as real numbers, and nothing below
  depends on rounding. The dimensionality reduction (UMAP), the clustering (HDBSCAN) and
  the ordering used by \<open>sort_values\<close> are calls into external libraries: each is a
  parameter of the function that calls it.
\<close>

datatype py_error =
  ValueError | AttributeError | IndexError | KeyError | ZeroDivisionError | RecursionError

text \<open>
  The embedding table \<open>self.df\<close>, column by column. The columns loaded from the Parquet
  file are always present (\<open>col_text\<close> is \<open>claim_text\<close> or \<open>predicate_text\<close>); the
  columns the pipeline adds are absent (\<open>None\<close>) until assigned. The table is read with
  its default index, so a row's index label is its position.
\<close>

record frame =
  col_text :: "ustring list"
  col_source_file :: "string list"
  col_embedding :: "real list list"
  col_x :: "real list option"
  col_y :: "real list option"
  col_x_norm :: "real list option"
  col_y_norm :: "real list option"
  col_cluster :: "int list option"
  col_probability :: "real list option"
  col_outlier_score :: "real list option"

definition len_df :: "frame \<Rightarrow> nat" where
  "len_df df = length (col_text df)"

text \<open>
  \<open>df[name] = values\<close> with a NumPy array: pandas raises \<open>ValueError\<close> unless the array
  has one value per row.
\<close>

definition assign_column :: "frame \<Rightarrow> 'a list \<Rightarrow> py_error + 'a list option" where
  "assign_column df values =
     (if length values = len_df df then Inr (Some values) else Inl ValueError)"

text \<open>One row of HDBSCAN's condensed tree, as \<open>condensed_tree_.to_pandas()\<close> lists it.\<close>

record tree_row =
  parent :: int
  child :: int
  lambda_val :: real
  child_size :: int

text \<open>
  What a fitted \<open>hdbscan.HDBSCAN\<close> object exposes to the scripts. \<open>cluster_map\<close> is
  \<open>prediction_data_.cluster_map\<close>, a dict from tree node to flat label, in item order.
  \<open>condensed_tree\<close> is \<open>None\<close> when \<open>hasattr(clusterer, 'condensed_tree_')\<close> is false,
  and \<open>relative_validity\<close> is \<open>None\<close> when reading \<open>relative_validity_\<close> raises.
\<close>

record hdbscan =
  labels :: "int list"
  probabilities :: "real list"
  outlier_scores :: "real list"
  condensed_tree :: "tree_row list option"
  cluster_map :: "(int \<times> int) list"
  relative_validity :: "real option"

text \<open>
  A cluster descriptor, one entry of \<open>self.cluster_descriptions\<close>, with its keys
  \<open>'keywords'\<close>, \<open>'size'\<close>, \<open>'top_words_with_freq'\<close> and \<open>'sample_rows'\<close>; a sample
  row is one record of \<open>reset_index().to_dict('records')\<close>.
\<close>

record sample_row =
  row_index :: nat
  row_text :: ustring
  row_source_file :: string
  row_cluster :: int
  row_probability :: real
  row_outlier_score :: "real option"

record descriptor =
  d_keywords :: "ustring list"
  d_size :: nat
  d_top_words_with_freq :: "(ustring \<times> nat) list"
  d_sample_rows :: "sample_row list"

text \<open>
  The visualizer object. An attribute that the constructor does not set is \<open>None\<close> until
  a method assigns it (\<open>hasattr\<close> is then false).
\<close>

record visualizer =
  random_state :: int
  df :: frame
  X :: "real list list"
  n_samples :: nat
  XY :: "real list list option"
  XY_normalized :: "real list list option"
  clusterer :: "hdbscan option"
  n_clusters :: "int option"
  n_noise :: "nat option"
  cluster_descriptions :: "(int \<times> descriptor) list option"
  color_map :: "(int \<times> string) list option"

section \<open>Dimensionality reduction: \<open>reduce_dimensions\<close>\<close>

text \<open>
  Modelled from the spec: the standardization that scikit-learn's
  \<open>StandardScaler().fit_transform\<close> performs is not code of this repository. Each column
  is shifted by its mean and divided by its population standard deviation; a column of
  zero deviation is divided by 1 instead.
\<close>

definition column :: "nat \<Rightarrow> real list list \<Rightarrow> real list" where
  "column j m = map (\<lambda>r. r ! j) m"

definition mean :: "real list \<Rightarrow> real" where
  "mean xs = sum_list xs / real (length xs)"

definition variance :: "real list \<Rightarrow> real" where
  "variance xs = mean (map (\<lambda>v. (v - mean xs)\<^sup>2) xs)"

definition scale_of :: "real list \<Rightarrow> real" where
  "scale_of xs = (if variance xs = 0 then 1 else sqrt (variance xs))"

definition standardize :: "real list \<Rightarrow> real list" where
  "standardize xs = map (\<lambda>v. (v - mean xs) / scale_of xs) xs"

definition StandardScaler_fit_transform :: "real list list \<Rightarrow> real list list" where
  "StandardScaler_fit_transform m =
     map (\<lambda>i. map (\<lambda>j. standardize (column j m) ! i) [0..<length (m ! i)]) [0..<length m]"

text \<open>Sequencing of steps that may raise: the first error ends the computation.\<close>

definition bind_err :: "py_error + 'a \<Rightarrow> ('a \<Rightarrow> py_error + 'b) \<Rightarrow> py_error + 'b" where
  "bind_err r f = (case r of Inl e \<Rightarrow> Inl e | Inr v \<Rightarrow> f v)"

text \<open>
  \<^verbatim>\<open>
    self.XY = self.reducer.fit_transform(self.X)
    self.df["x"], self.df["y"] = self.XY[:, 0], self.XY[:, 1]
    scaler = StandardScaler()
    self.XY_normalized = scaler.fit_transform(self.XY)
    self.df["x_norm"], self.df["y_norm"] = self.XY_normalized[:, 0], self.XY_normalized[:, 1]
  \<close>
  \<open>reducer\<close> is the configured UMAP's \<open>fit_transform\<close>: it returns one row of
  \<open>n_components\<close> coordinates per embedding, two in the claim and predicate scripts,
  \<open>n_components\<close> (30 by default) in \<open>Cluster Assessment.py\<close>. The slice \<open>[:, 1]\<close>
  raises \<open>IndexError\<close> on rows of fewer than two coordinates.
\<close>

definition reduce_dimensions ::
    "(real list list \<Rightarrow> real list list) \<Rightarrow> visualizer \<Rightarrow> py_error + visualizer" where
  "reduce_dimensions reducer viz =
     (let xy = reducer (X viz) in
      if \<exists>r\<in>set xy. length r < 2 then Inl IndexError
      else
        bind_err (assign_column (df viz) (column 0 xy)) (\<lambda>cx.
        bind_err (assign_column (df viz) (column 1 xy)) (\<lambda>cy.
          let xyn = StandardScaler_fit_transform xy in
          bind_err (assign_column (df viz) (column 0 xyn)) (\<lambda>cxn.
          bind_err (assign_column (df viz) (column 1 xyn)) (\<lambda>cyn.
            Inr (viz\<lparr>XY := Some xy, XY_normalized := Some xyn,
                     df := (df viz)\<lparr>col_x := cx, col_y := cy,
                                      col_x_norm := cxn, col_y_norm := cyn\<rparr>\<rparr>))))))"

section \<open>Clustering: \<open>cluster_embeddings\<close>\<close>

text \<open>
  \<open>len(set(labels_)) - (1 if -1 in labels_ else 0)\<close> and \<open>sum(df["cluster"] == -1)\<close>.
\<close>

definition count_clusters :: "int list \<Rightarrow> int" where
  "count_clusters ls = int (length (remdups ls)) - (if -1 \<in> set ls then 1 else 0)"

definition count_noise :: "int list \<Rightarrow> nat" where
  "count_noise ls = length (filter (\<lambda>l. l = -1) ls)"

text \<open>
  \<open>cluster_embeddings\<close> of \<open>Claim Clustering_Report.py\<close> and \<open>Predicate with WordNet.py\<close>.
  \<open>fit\<close> stands for \<open>hdbscan.HDBSCAN(min_cluster_size, min_samples, metric="euclidean",
  cluster_selection_method="eom", prediction_data=True).fit\<close>, which may raise.
  \<^verbatim>\<open>
    self.clusterer.fit(self.XY_normalized)
    self.df["cluster"] = self.clusterer.labels_
    self.df["probability"] = self.clusterer.probabilities_
    self.df["outlier_score"] = self.clusterer.outlier_scores_
    self.n_clusters = len(set(self.clusterer.labels_)) - (1 if -1 in self.clusterer.labels_ else 0)
    self.n_noise = sum(self.df["cluster"] == -1)
  \<close>
\<close>

definition cluster_embeddings ::
    "(int \<Rightarrow> int \<Rightarrow> real list list \<Rightarrow> py_error + hdbscan) \<Rightarrow> visualizer \<Rightarrow> int \<Rightarrow> int
      \<Rightarrow> py_error + visualizer" where
  "cluster_embeddings fit viz min_cluster_size min_samples =
     (case XY_normalized viz of
        None \<Rightarrow> Inl AttributeError
      | Some xyn \<Rightarrow>
          bind_err (fit min_cluster_size min_samples xyn) (\<lambda>c.
          bind_err (assign_column (df viz) (labels c)) (\<lambda>cl.
          bind_err (assign_column (df viz) (probabilities c)) (\<lambda>pr.
          bind_err (assign_column (df viz) (outlier_scores c)) (\<lambda>os.
            Inr (viz\<lparr>clusterer := Some c,
                     df := (df viz)\<lparr>col_cluster := cl, col_probability := pr,
                                      col_outlier_score := os\<rparr>,
                     n_clusters := Some (count_clusters (labels c)),
                     n_noise := Some (count_noise (labels c))\<rparr>))))))"

text \<open>
  \<open>cluster_embeddings\<close> of \<open>Cluster Assessment.py\<close>: the same, without the
  \<open>outlier_score\<close> column.
\<close>

definition cluster_embeddings_assessment ::
    "(int \<Rightarrow> int \<Rightarrow> real list list \<Rightarrow> py_error + hdbscan) \<Rightarrow> visualizer \<Rightarrow> int \<Rightarrow> int
      \<Rightarrow> py_error + visualizer" where
  "cluster_embeddings_assessment fit viz min_cluster_size min_samples =
     (case XY_normalized viz of
        None \<Rightarrow> Inl AttributeError
      | Some xyn \<Rightarrow>
          bind_err (fit min_cluster_size min_samples xyn) (\<lambda>c.
          bind_err (assign_column (df viz) (labels c)) (\<lambda>cl.
          bind_err (assign_column (df viz) (probabilities c)) (\<lambda>pr.
            Inr (viz\<lparr>clusterer := Some c,
                     df := (df viz)\<lparr>col_cluster := cl, col_probability := pr\<rparr>,
                     n_clusters := Some (count_clusters (labels c)),
                     n_noise := Some (count_noise (labels c))\<rparr>)))))"

section \<open>Parameter search: \<open>optimize_clustering_parameters\<close>\<close>

text \<open>The dict built for one tried setting.\<close>

record param_result =
  min_cluster_size :: int
  min_samples :: int
  res_n_clusters :: int
  noise_ratio :: real

text \<open>
  The fresh visualizer of one iteration: it takes the table, the sample count, the random
  state and the normalized projection of \<open>base_viz\<close>. (The predicate script also reloads
  the file and copies \<open>X\<close>; \<open>cluster_embeddings\<close> reads neither.)
\<close>

definition viz_test_of :: "visualizer \<Rightarrow> visualizer" where
  "viz_test_of base_viz =
     \<lparr>random_state = random_state base_viz, df = df base_viz, X = [],
      n_samples = n_samples base_viz, XY = None, XY_normalized = XY_normalized base_viz,
      clusterer = None, n_clusters = None, n_noise = None,
      cluster_descriptions = None, color_map = None\<rparr>"

text \<open>
  One iteration up to the \<open>result\<close> dict:
  \<^verbatim>\<open>
    min_samples = max(5, min_cluster_size // 2)
    viz_test.cluster_embeddings(min_cluster_size=min_cluster_size, min_samples=min_samples)
    result = {'min_cluster_size': min_cluster_size, 'min_samples': min_samples,
              'n_clusters': viz_test.n_clusters,
              'noise_ratio': viz_test.n_noise / len(viz_test.df)}
  \<close>
\<close>

definition evaluate_setting ::
    "(int \<Rightarrow> int \<Rightarrow> real list list \<Rightarrow> py_error + hdbscan) \<Rightarrow> visualizer \<Rightarrow> int
      \<Rightarrow> py_error + param_result" where
  "evaluate_setting fit base_viz mcs =
     (let ms = max 5 (mcs div 2) in
      bind_err (cluster_embeddings fit (viz_test_of base_viz) mcs ms) (\<lambda>viz_test.
        case (n_clusters viz_test, n_noise viz_test) of
          (Some nc, Some nn) \<Rightarrow>
            if len_df (df viz_test) = 0 then Inl ZeroDivisionError
            else Inr \<lparr>min_cluster_size = mcs, min_samples = ms, res_n_clusters = nc,
                      noise_ratio = real nn / real (len_df (df viz_test))\<rparr>
        | _ \<Rightarrow> Inl AttributeError))"

text \<open>
  \<open>min(param_results, key=...)\<close>: the first element whose key is least; \<open>ValueError\<close> on
  an empty list.
\<close>

definition min_by :: "('a \<Rightarrow> real) \<Rightarrow> 'a list \<Rightarrow> py_error + 'a" where
  "min_by key xs =
     (case xs of
        [] \<Rightarrow> Inl ValueError
      | x # rest \<Rightarrow> Inr (fold (\<lambda>y best. if key y < key best then y else best) rest x))"

definition in_target_range :: "int \<times> int \<Rightarrow> param_result \<Rightarrow> bool" where
  "in_target_range target result =
     (fst target \<le> res_n_clusters result \<and> res_n_clusters result \<le> snd target)"

text \<open>\<open>abs(x['n_clusters'] - sum(target_clusters_range)/2)\<close>\<close>

definition midpoint_distance :: "int \<times> int \<Rightarrow> param_result \<Rightarrow> real" where
  "midpoint_distance target result =
     \<bar>real_of_int (res_n_clusters result) - real_of_int (fst target + snd target) / 2\<bar>"

text \<open>
  The loop over the sizes still to try, with \<open>param_results\<close> as accumulator; the early
  \<open>return result\<close> ends it, and the code after the loop runs when the list is exhausted.
\<close>

fun sweep ::
    "(int \<Rightarrow> int \<Rightarrow> real list list \<Rightarrow> py_error + hdbscan) \<Rightarrow> visualizer \<Rightarrow> int \<times> int
      \<Rightarrow> int list \<Rightarrow> param_result list \<Rightarrow> py_error + param_result" where
  "sweep fit base_viz target [] param_results =
     min_by (midpoint_distance target) param_results"
| "sweep fit base_viz target (mcs # sizes) param_results =
     bind_err (evaluate_setting fit base_viz mcs) (\<lambda>result.
       if in_target_range target result then Inr result
       else sweep fit base_viz target sizes (param_results @ [result]))"

definition optimize_clustering_parameters ::
    "(real list list \<Rightarrow> real list list)
      \<Rightarrow> (int \<Rightarrow> int \<Rightarrow> real list list \<Rightarrow> py_error + hdbscan) \<Rightarrow> visualizer \<Rightarrow> int \<times> int
      \<Rightarrow> py_error + param_result" where
  "optimize_clustering_parameters reducer fit loaded target_clusters_range =
     bind_err (reduce_dimensions reducer loaded) (\<lambda>base_viz.
       sweep fit base_viz target_clusters_range [20, 30, 40, 50, 75, 100, 150, 200] [])"

section \<open>Parameter assessment: \<open>assess_2d_parameters\<close>\<close>

text \<open>A NumPy float that may be \<open>nan\<close> or \<open>inf\<close>.\<close>

datatype np_float = Finite real | PosInf | NaN

text \<open>A count divided by a Python int, as NumPy does it: no exception on zero.\<close>

definition np_divide :: "nat \<Rightarrow> nat \<Rightarrow> np_float" where
  "np_divide k n = (if n = 0 then (if k = 0 then NaN else PosInf) else Finite (real k / real n))"

record assessment_row =
  a_min_cluster_size :: int
  a_min_samples :: int
  a_n_clusters :: int
  a_noise_ratio :: np_float
  dbcv_score :: np_float

text \<open>
  \<^verbatim>\<open>
    param_grid = []
    for mcs in mcs_values:
        for ms in ms_values:
            if ms <= mcs:
                param_grid.append((mcs, ms))
  \<close>
\<close>

definition param_grid :: "int list \<Rightarrow> int list \<Rightarrow> (int \<times> int) list" where
  "param_grid mcs_values ms_values =
     concat (map (\<lambda>mcs. map (\<lambda>ms. (mcs, ms)) (filter (\<lambda>ms. ms \<le> mcs) ms_values)) mcs_values)"

text \<open>
  The body of the loop over the grid. \<open>fit_mst\<close> stands for
  \<open>hdbscan.HDBSCAN(min_cluster_size=mcs, min_samples=ms, gen_min_span_tree=True,
  metric="euclidean").fit\<close>. Reading \<open>relative_validity_\<close> is inside \<open>try\<close>; any
  exception there gives \<open>np.nan\<close>.
\<close>

definition assess_pair ::
    "(int \<Rightarrow> int \<Rightarrow> real list list \<Rightarrow> py_error + hdbscan) \<Rightarrow> visualizer \<Rightarrow> int \<times> int
      \<Rightarrow> py_error + assessment_row" where
  "assess_pair fit_mst base_visualizer p =
     (case XY_normalized base_visualizer of
        None \<Rightarrow> Inl AttributeError
      | Some xyn \<Rightarrow>
          bind_err (fit_mst (fst p) (snd p) xyn) (\<lambda>c.
            Inr \<lparr>a_min_cluster_size = fst p, a_min_samples = snd p,
                 a_n_clusters = count_clusters (labels c),
                 a_noise_ratio = np_divide (count_noise (labels c)) (len_df (df base_visualizer)),
                 dbcv_score = (case relative_validity c of Some v \<Rightarrow> Finite v | None \<Rightarrow> NaN)\<rparr>))"

fun assess_loop ::
    "(int \<Rightarrow> int \<Rightarrow> real list list \<Rightarrow> py_error + hdbscan) \<Rightarrow> visualizer \<Rightarrow> (int \<times> int) list
      \<Rightarrow> assessment_row list \<Rightarrow> py_error + assessment_row list" where
  "assess_loop fit_mst base_visualizer [] results = Inr results"
| "assess_loop fit_mst base_visualizer (p # grid) results =
     bind_err (assess_pair fit_mst base_visualizer p) (\<lambda>row.
       assess_loop fit_mst base_visualizer grid (results @ [row]))"

definition assess_2d_parameters ::
    "(int \<Rightarrow> int \<Rightarrow> real list list \<Rightarrow> py_error + hdbscan) \<Rightarrow> visualizer \<Rightarrow> int list \<Rightarrow> int list
      \<Rightarrow> py_error + assessment_row list" where
  "assess_2d_parameters fit_mst base_visualizer mcs_values ms_values =
     assess_loop fit_mst base_visualizer (param_grid mcs_values ms_values) []"

section \<open>Cluster descriptors: \<open>extract_cluster_keywords\<close>\<close>

text \<open>
  \<open>re.sub(r'[^\w\s\u4e00-\u9fa5]', ' ', text.lower())\<close>: every character of the
  lowercased text that is neither a word character, nor whitespace, nor in the range
  U+4E00 to U+9FA5 (19968 to 40869) becomes a space.
\<close>

definition clean_text :: "unicode \<Rightarrow> ustring \<Rightarrow> ustring" where
  "clean_text ucd text =
     map (\<lambda>c. if is_word ucd c \<or> is_space ucd c \<or> (19968 \<le> c \<and> c \<le> 40869) then c else 32)
       (lower ucd text)"

text \<open>
  The words one text contributes. Claim script:
  \<open>[w for w in cleaned.split() if len(w) > min_word_length]\<close>; predicate script:
  \<open>[w for w in cleaned.split() if len(w) > min_word_length and not w.isdigit()]\<close>.
\<close>

definition text_words :: "unicode \<Rightarrow> int \<Rightarrow> ustring \<Rightarrow> ustring list" where
  "text_words ucd min_word_length text =
     filter (\<lambda>w. int (length w) > min_word_length) (split_ws ucd (clean_text ucd text))"

text \<open>\<open>str.isdigit\<close>: at least one character, and digits only.\<close>

definition isdigit :: "unicode \<Rightarrow> ustring \<Rightarrow> bool" where
  "isdigit ucd w = (w \<noteq> [] \<and> (\<forall>c\<in>set w. is_digit ucd c))"

definition text_words_predicate :: "unicode \<Rightarrow> int \<Rightarrow> ustring \<Rightarrow> ustring list" where
  "text_words_predicate ucd min_word_length text =
     filter (\<lambda>w. int (length w) > min_word_length \<and> \<not> isdigit ucd w)
       (split_ws ucd (clean_text ucd text))"

text \<open>
  \<open>collections.Counter(words)\<close>: a dict from word to count, in order of first occurrence.
\<close>

fun counter_add :: "(ustring \<times> nat) list \<Rightarrow> ustring \<Rightarrow> (ustring \<times> nat) list" where
  "counter_add [] w = [(w, 1)]"
| "counter_add ((k, n) # d) w = (if k = w then (k, n + 1) # d else (k, n) # counter_add d w)"

definition Counter :: "ustring list \<Rightarrow> (ustring \<times> nat) list" where
  "Counter ws = fold (\<lambda>w d. counter_add d w) ws []"

text \<open>
  \<open>Counter.most_common(n)\<close>: the items by decreasing count, items of equal count in
  dict order, cut to \<open>n\<close> (nothing for \<open>n \<le> 0\<close>).
\<close>

definition most_common :: "int \<Rightarrow> (ustring \<times> nat) list \<Rightarrow> (ustring \<times> nat) list" where
  "most_common n d = take (nat n) (sort_key (\<lambda>item. - int (snd item)) d)"

text \<open>
  The rows of one cluster, \<open>self.df[self.df["cluster"] == cluster_id]\<close>, as row positions.
\<close>

definition cluster_rows :: "int list \<Rightarrow> int \<Rightarrow> nat list" where
  "cluster_rows cl cluster_id = filter (\<lambda>i. cl ! i = cluster_id) [0..<length cl]"

text \<open>
  \<open>cluster_df.sort_values(by='probability', ascending=False).head(5)\<close>, then
  \<open>reset_index().to_dict('records')\<close>. The order comes from NumPy's \<open>argsort\<close>, which
  pandas calls with an unstable sort: \<open>sorter\<close> is that external ordering, given the
  probabilities of the cluster's rows and returning their positions in output order.
\<close>

definition sample_rows_of ::
    "(real list \<Rightarrow> nat list) \<Rightarrow> frame \<Rightarrow> int list \<Rightarrow> real list \<Rightarrow> int \<Rightarrow> sample_row list" where
  "sample_rows_of sorter tbl cl pr cluster_id =
     (let rows = cluster_rows cl cluster_id;
          order = sorter (map (\<lambda>i. pr ! i) rows);
          top = take 5 (map (\<lambda>k. rows ! k) order)
      in map (\<lambda>i. \<lparr>row_index = i, row_text = col_text tbl ! i,
                     row_source_file = col_source_file tbl ! i, row_cluster = cl ! i,
                     row_probability = pr ! i,
                     row_outlier_score = map_option (\<lambda>os. os ! i) (col_outlier_score tbl)\<rparr>) top)"

text \<open>
  The inner loop \<open>for text in cluster_df[...].values: words.extend(...)\<close>: the words of
  the cluster's texts, in row order. \<open>words_of\<close> is one of the two word filters above,
  already applied to \<open>min_word_length\<close>.
\<close>

definition cluster_words ::
    "(ustring \<Rightarrow> ustring list) \<Rightarrow> frame \<Rightarrow> int list \<Rightarrow> int \<Rightarrow> ustring list" where
  "cluster_words words_of tbl cl cluster_id =
     concat (map (\<lambda>i. words_of (col_text tbl ! i)) (cluster_rows cl cluster_id))"

text \<open>The body of the outer loop for one cluster id other than \<open>-1\<close>.\<close>

definition describe_cluster ::
    "(real list \<Rightarrow> nat list) \<Rightarrow> (ustring \<Rightarrow> ustring list) \<Rightarrow> int \<Rightarrow> frame \<Rightarrow> int list \<Rightarrow> real list
      \<Rightarrow> int \<Rightarrow> descriptor" where
  "describe_cluster sorter words_of n_terms tbl cl pr cluster_id =
     (let rows = cluster_rows cl cluster_id;
          words = cluster_words words_of tbl cl cluster_id;
          word_counts = Counter words;
          top_words = map fst (most_common n_terms word_counts)
      in \<lparr>d_keywords = top_words, d_size = length rows,
          d_top_words_with_freq = most_common 20 word_counts,
          d_sample_rows = sample_rows_of sorter tbl cl pr cluster_id\<rparr>)"

text \<open>
  \<open>for cluster_id in sorted(self.df["cluster"].unique()): if cluster_id == -1: continue\<close>.
  A missing \<open>cluster\<close> column raises \<open>KeyError\<close> at once, a missing \<open>probability\<close> column
  when the first descriptor is built.
\<close>

definition extract_with ::
    "(real list \<Rightarrow> nat list) \<Rightarrow> (ustring \<Rightarrow> ustring list) \<Rightarrow> int \<Rightarrow> visualizer
      \<Rightarrow> py_error + visualizer" where
  "extract_with sorter words_of n_terms viz =
     (case col_cluster (df viz) of
        None \<Rightarrow> Inl KeyError
      | Some cl \<Rightarrow>
          (let ids = filter (\<lambda>cluster_id. cluster_id \<noteq> -1) (sort (remdups cl)) in
           if ids = [] then Inr (viz\<lparr>cluster_descriptions := Some []\<rparr>)
           else
             (case col_probability (df viz) of
                None \<Rightarrow> Inl KeyError
              | Some pr \<Rightarrow>
                  Inr (viz\<lparr>cluster_descriptions :=
                         Some (map (\<lambda>cluster_id. (cluster_id,
                                 describe_cluster sorter words_of n_terms (df viz) cl pr cluster_id))
                               ids)\<rparr>))))"

definition extract_cluster_keywords ::
    "unicode \<Rightarrow> (real list \<Rightarrow> nat list) \<Rightarrow> visualizer \<Rightarrow> int \<Rightarrow> int
      \<Rightarrow> py_error + visualizer" where
  "extract_cluster_keywords ucd sorter viz n_terms min_word_length =
     extract_with sorter (text_words ucd min_word_length) n_terms viz"

definition extract_cluster_keywords_predicate ::
    "unicode \<Rightarrow> (real list \<Rightarrow> nat list) \<Rightarrow> visualizer \<Rightarrow> int \<Rightarrow> int
      \<Rightarrow> py_error + visualizer" where
  "extract_cluster_keywords_predicate ucd sorter viz n_terms min_word_length =
     extract_with sorter (text_words_predicate ucd min_word_length) n_terms viz"

text \<open>
  What the descriptors are claimed to hold, stated apart from the code. \<open>most_frequent\<close>:
  \<open>kws\<close> are \<open>n\<close> most frequent words of \<open>ws\<close>, most frequent first (all of them when
  there are fewer than \<open>n\<close>). \<open>top_samples\<close>: \<open>samples\<close> are up to five rows of the
  cluster, none twice, by decreasing probability, and no other row of the cluster has a
  higher probability than a sampled one. \<open>descending_argsort\<close>: what the external
  ordering guarantees, whatever it does with ties.
\<close>

definition most_frequent :: "nat \<Rightarrow> ustring list \<Rightarrow> ustring list \<Rightarrow> bool" where
  "most_frequent n ws kws =
     (distinct kws \<and> set kws \<subseteq> set ws \<and> length kws = min n (card (set ws))
      \<and> sorted_wrt (\<lambda>a b. count_list ws b \<le> count_list ws a) kws
      \<and> (\<forall>k\<in>set kws. \<forall>w\<in>set ws - set kws. count_list ws w \<le> count_list ws k))"

definition top_samples :: "frame \<Rightarrow> int list \<Rightarrow> real list \<Rightarrow> int \<Rightarrow> sample_row list \<Rightarrow> bool" where
  "top_samples tbl cl pr cluster_id samples =
     (length samples = min 5 (card {i. i < length cl \<and> cl ! i = cluster_id})
      \<and> distinct (map row_index samples)
      \<and> (\<forall>s\<in>set samples. row_index s < length cl \<and> cl ! row_index s = cluster_id
            \<and> row_cluster s = cluster_id \<and> row_text s = col_text tbl ! row_index s
            \<and> row_source_file s = col_source_file tbl ! row_index s
            \<and> row_probability s = pr ! row_index s)
      \<and> sorted_wrt (\<lambda>a b. row_probability b \<le> row_probability a) samples
      \<and> (\<forall>i. i < length cl \<and> cl ! i = cluster_id \<and> i \<notin> row_index ` set samples
            \<longrightarrow> (\<forall>s\<in>set samples. pr ! i \<le> row_probability s)))"

definition descending_argsort :: "(real list \<Rightarrow> nat list) \<Rightarrow> bool" where
  "descending_argsort sorter =
     (\<forall>ps. mset (sorter ps) = mset [0..<length ps]
        \<and> sorted_wrt (\<lambda>a b. ps ! b \<le> ps ! a) (sorter ps))"

section \<open>Cluster hierarchy: the condensed tree as the exporters read it\<close>

text \<open>
  \<open>parent_children = tree_df.groupby('parent')['child'].apply(list).to_dict()\<close>: for a
  node that occurs as a parent, its children in row order; no entry for another node.
\<close>

definition parent_children :: "tree_row list \<Rightarrow> int \<Rightarrow> int list option" where
  "parent_children tree node =
     (let cs = map child (filter (\<lambda>r. parent r = node) tree)
      in if cs = [] then None else Some cs)"

text \<open>
  \<open>node_sizes_direct = dict(zip(tree_df['child'], tree_df['child_size']))\<close>: for a node
  that occurs as a child, the size recorded in its row (the last such row, were there
  several).
\<close>

definition node_sizes_direct :: "tree_row list \<Rightarrow> int \<Rightarrow> int option" where
  "node_sizes_direct tree = map_of (rev (map (\<lambda>r. (child r, child_size r)) tree))"

text \<open>
  \<open>root_nodes = sorted(list(set(parent_children.keys()) - set(tree_df['child'])),
  reverse=True)\<close>
\<close>

definition root_nodes :: "tree_row list \<Rightarrow> int list" where
  "root_nodes tree =
     rev (sort (remdups (filter (\<lambda>p. p \<notin> child ` set tree) (map parent tree))))"

text \<open>
  \<open>get_node_size\<close> of the HTML exporter, with its cache \<open>memoized_sizes\<close> passed in and
  returned:
  \<^verbatim>\<open>
    def get_node_size(node):
        if node in memoized_sizes: return memoized_sizes[node]
        if node in node_sizes_direct:
            size = node_sizes_direct[node]
            memoized_sizes[node] = size
            return size
        if node in parent_children:
            size = sum(get_node_size(child) for child in parent_children[node])
            memoized_sizes[node] = size
            return size
        return 1
  \<close>
  \<open>sum_sizes\<close> is the \<open>sum\<close> over the generator. The recursion ends because a child of
  any node has a recorded size.
\<close>

function get_node_size :: "tree_row list \<Rightarrow> (int \<rightharpoonup> int) \<Rightarrow> int \<Rightarrow> int \<times> (int \<rightharpoonup> int)"
  and sum_sizes :: "tree_row list \<Rightarrow> (int \<rightharpoonup> int) \<Rightarrow> int list \<Rightarrow> int \<times> (int \<rightharpoonup> int)" where
  "get_node_size tree memoized_sizes node =
     (case memoized_sizes node of
        Some s \<Rightarrow> (s, memoized_sizes)
      | None \<Rightarrow>
          (case node_sizes_direct tree node of
             Some s \<Rightarrow> (s, memoized_sizes(node \<mapsto> s))
           | None \<Rightarrow>
               (case parent_children tree node of
                  Some cs \<Rightarrow>
                    (case sum_sizes tree memoized_sizes cs of
                       (s, memo') \<Rightarrow> (s, memo'(node \<mapsto> s)))
                | None \<Rightarrow> (1, memoized_sizes))))"
| "sum_sizes tree memoized_sizes [] = (0, memoized_sizes)"
| "sum_sizes tree memoized_sizes (c # cs) =
     (case get_node_size tree memoized_sizes c of
        (s, memo') \<Rightarrow>
          (case sum_sizes tree memo' cs of (t, memo'') \<Rightarrow> (s + t, memo'')))"
  by pat_completeness auto

lemma parent_children_recorded:
  assumes "parent_children tree node = Some cs" and "c \<in> set cs"
  shows "c \<in> child ` set tree"
  using assms by (auto simp: parent_children_def Let_def split: if_splits)

lemma node_sizes_direct_None: "node_sizes_direct tree node = None \<longleftrightarrow> node \<notin> child ` set tree"
  by (force simp: node_sizes_direct_def map_of_eq_None_iff)

termination get_node_size
proof (relation "measure (\<lambda>x. case x of
    Inl (tree, memo, node) \<Rightarrow> (if node \<in> child ` set tree then 1 else 3 + length tree)
  | Inr (tree, memo, cs) \<Rightarrow>
      (if set cs \<subseteq> child ` set tree then 1 else 3 + length tree) + 1 + length cs)")
  show "wf (measure (\<lambda>x. case x of
    Inl (tree, memo, node) \<Rightarrow> (if node \<in> child ` set tree then 1 else 3 + length tree)
  | Inr (tree, memo, cs) \<Rightarrow>
      (if set cs \<subseteq> child ` set tree then 1 else 3 + length tree) + 1 + length (cs :: int list)))"
    by simp
next
  fix tree :: "tree_row list" and memoized_sizes :: "int \<rightharpoonup> int" and node cs
  assume "memoized_sizes node = None" "node_sizes_direct tree node = None"
    and pc: "parent_children tree node = Some cs"
  then have notchild: "node \<notin> child ` set tree"
    by (simp add: node_sizes_direct_None)
  have sub: "set cs \<subseteq> child ` set tree"
    using parent_children_recorded [OF pc] by blast
  have "length cs \<le> length tree"
    using pc by (auto simp: parent_children_def Let_def split: if_splits
        intro: order_trans [OF length_filter_le])
  with notchild sub
  show "(Inr (tree, memoized_sizes, cs), Inl (tree, memoized_sizes, node)) \<in> measure (\<lambda>x. case x of
    Inl (tree, memo, node) \<Rightarrow> (if node \<in> child ` set tree then 1 else 3 + length tree)
  | Inr (tree, memo, cs) \<Rightarrow>
      (if set cs \<subseteq> child ` set tree then 1 else 3 + length tree) + 1 + length cs)"
    by simp
qed auto

declare get_node_size.simps [simp del]

text \<open>
  The size of a node as the specification words it: the recorded \<open>child_size\<close> for a node
  that occurs as a child; otherwise, for a node that occurs as a parent, the sum of the
  sizes of its children; otherwise 1.
\<close>

function node_size :: "tree_row list \<Rightarrow> int \<Rightarrow> int" where
  "node_size tree node =
     (if node \<in> child ` set tree
      then child_size (last (filter (\<lambda>r. child r = node) tree))
      else if node \<in> parent ` set tree
      then sum_list (map (node_size tree) (map child (filter (\<lambda>r. parent r = node) tree)))
      else 1)"
  by pat_completeness auto
termination
  by (relation "measure (\<lambda>(tree, node). if node \<in> child ` set tree then 0 else 1)") auto

declare node_size.simps [simp del]

text \<open>
  \<open>cluster_id_to_node = {label: node for node, label in cluster_map.items()}\<close>: the dict
  comprehension keeps, for a label met again, its first position and the later node.
  \<open>final_cluster_label = next((cid for cid, nid in cluster_id_to_node.items() if nid ==
  node), None)\<close>.
\<close>

fun dict_set :: "('k \<times> 'v) list \<Rightarrow> 'k \<Rightarrow> 'v \<Rightarrow> ('k \<times> 'v) list" where
  "dict_set [] k v = [(k, v)]"
| "dict_set ((k', v') # d) k v = (if k' = k then (k', v) # d else (k', v') # dict_set d k v)"

definition cluster_id_to_node :: "(int \<times> int) list \<Rightarrow> (int \<times> int) list" where
  "cluster_id_to_node cmap = fold (\<lambda>(node, label) d. dict_set d label node) cmap []"

definition final_cluster_label :: "(int \<times> int) list \<Rightarrow> int \<Rightarrow> int option" where
  "final_cluster_label c2n node = map_option fst (find (\<lambda>(cid, nid). nid = node) c2n)"

text \<open>
  \<open>node_data.get(node, {}).get('lambda_val', 0)\<close>, where \<open>node_data\<close> is indexed by
  \<open>child\<close>.
\<close>

definition node_lambda :: "tree_row list \<Rightarrow> int \<Rightarrow> real" where
  "node_lambda tree node =
     (case find (\<lambda>r. child r = node) tree of Some r \<Rightarrow> lambda_val r | None \<Rightarrow> 0)"

text \<open>
  One rendered node of the tree view, a \<open><li>\<close> element: the node, its size and
  \<open>lambda\<close>, whether it shows the toggle, the link to a final cluster when it has one
  (label, colour, and the keyword preview), and the nested list of its rendered children.
\<close>

record cluster_link =
  link_label :: int
  link_color :: string
  link_keywords :: "ustring list"

datatype li = Li (li_node: int) (li_size: int) (li_lambda: real) (li_toggle: bool)
  (li_link: "cluster_link option") (li_children: "li list")

text \<open>
  \<open>self.color_map.get(final_cluster_label, '#6c757d')\<close> and
  \<open>self.cluster_descriptions.get(final_cluster_label, {}).get('keywords', [])[:3]\<close>.
\<close>

definition make_link :: "(int \<times> string) list \<Rightarrow> (int \<times> descriptor) list \<Rightarrow> int \<Rightarrow> cluster_link" where
  "make_link colors descriptions label =
     \<lparr>link_label = label,
      link_color = (case map_of colors label of Some c \<Rightarrow> c | None \<Rightarrow> ''#6c757d''),
      link_keywords =
        take 3 (case map_of descriptions label of Some d \<Rightarrow> d_keywords d | None \<Rightarrow> [])\<rparr>"

text \<open>
  \<open>any(get_node_size(child) > 1 for child in parent_children[node])\<close>: it stops at the
  first child of size above 1, and the cache keeps what was computed up to there.
\<close>

fun any_visible :: "tree_row list \<Rightarrow> (int \<rightharpoonup> int) \<Rightarrow> int list \<Rightarrow> bool \<times> (int \<rightharpoonup> int)" where
  "any_visible tree memo [] = (False, memo)"
| "any_visible tree memo (c # cs) =
     (case get_node_size tree memo c of
        (s, memo') \<Rightarrow> if s > 1 then (True, memo') else any_visible tree memo' cs)"

text \<open>
  \<open>build_hierarchy_html\<close>, producing the elements instead of their markup (none for a
  node of size at most 1, one otherwise). The first argument bounds the depth of the
  recursion, as Python's recursion limit does: \<open>None\<close> stands for \<open>RecursionError\<close>.
  The dicts the closure reads (the tree, \<open>cluster_id_to_node\<close>, \<open>self.color_map\<close> and
  \<open>self.cluster_descriptions\<close>) are passed together as \<open>env\<close>.
  \<^verbatim>\<open>
    def build_hierarchy_html(node, level=0):
        size = get_node_size(node)
        if size <= 1: return ""
        is_parent = node in parent_children
        lambda_val = node_data.get(node, {}).get('lambda_val', 0)
        final_cluster_label = next((cid for cid, nid in cluster_id_to_node.items() if nid == node), None)
        has_visible_children = is_parent and any(get_node_size(child) > 1 for child in parent_children[node])
        ...
        if has_visible_children:
            child_html = "".join(build_hierarchy_html(child, level + 1) for child in parent_children[node])
            if child_html: html += f'<ul class="collapsed">{child_html}</ul>'
  \<close>
\<close>

record hierarchy_env =
  env_tree :: "tree_row list"
  env_c2n :: "(int \<times> int) list"
  env_colors :: "(int \<times> string) list"
  env_descriptions :: "(int \<times> descriptor) list"

fun build_hierarchy ::
    "nat \<Rightarrow> hierarchy_env \<Rightarrow> (int \<rightharpoonup> int) \<Rightarrow> int \<Rightarrow> (li list \<times> (int \<rightharpoonup> int)) option"
  and build_children ::
    "nat \<Rightarrow> hierarchy_env \<Rightarrow> (int \<rightharpoonup> int) \<Rightarrow> int list \<Rightarrow> (li list \<times> (int \<rightharpoonup> int)) option" where
  "build_hierarchy 0 env memo node = None"
| "build_hierarchy (Suc depth) env memo node =
     (case get_node_size (env_tree env) memo node of
        (sz, memo1) \<Rightarrow>
          if sz \<le> 1 then Some ([], memo1)
          else
            (let lam = node_lambda (env_tree env) node;
                 link = map_option (make_link (env_colors env) (env_descriptions env))
                          (final_cluster_label (env_c2n env) node)
             in case parent_children (env_tree env) node of
                  None \<Rightarrow> Some ([Li node sz lam False link []], memo1)
                | Some cs \<Rightarrow>
                    (case any_visible (env_tree env) memo1 cs of
                       (False, memo2) \<Rightarrow> Some ([Li node sz lam False link []], memo2)
                     | (True, memo2) \<Rightarrow>
                         (case build_children depth env memo2 cs of
                            None \<Rightarrow> None
                          | Some (items, memo3) \<Rightarrow>
                              Some ([Li node sz lam True link items], memo3)))))"
| "build_children depth env memo [] = Some ([], memo)"
| "build_children depth env memo (c # cs) =
     (case build_hierarchy depth env memo c of
        None \<Rightarrow> None
      | Some (items, memo1) \<Rightarrow>
          (case build_children depth env memo1 cs of
             None \<Rightarrow> None
           | Some (more_items, memo2) \<Rightarrow> Some (items @ more_items, memo2)))"

text \<open>The cache is consistent when every size it holds is the size of its node.\<close>

definition memo_ok :: "tree_row list \<Rightarrow> (int \<rightharpoonup> int) \<Rightarrow> bool" where
  "memo_ok tree memo = (\<forall>n s. memo n = Some s \<longrightarrow> s = node_size tree n)"

text \<open>
  The tree view of the HTML report, \<open>hierarchy_html\<close>: nothing when the clusterer has no
  condensed tree; otherwise the elements built for the root nodes, in order, sharing one
  cache. \<open>tree_df.set_index('child').to_dict('index')\<close> raises \<open>ValueError\<close> when a node
  occurs twice as a child.
\<close>

definition hierarchy_items ::
    "nat \<Rightarrow> hdbscan \<Rightarrow> (int \<times> string) list \<Rightarrow> (int \<times> descriptor) list
      \<Rightarrow> py_error + li list option" where
  "hierarchy_items recursion_limit c colors descriptions =
     (case condensed_tree c of
        None \<Rightarrow> Inr None
      | Some tree \<Rightarrow>
          if \<not> distinct (map child tree) then Inl ValueError
          else
            (case build_children recursion_limit
                    \<lparr>env_tree = tree, env_c2n = cluster_id_to_node (cluster_map c),
                     env_colors = colors, env_descriptions = descriptions\<rparr>
                    Map.empty (root_nodes tree) of
               None \<Rightarrow> Inl RecursionError
             | Some (items, memo) \<Rightarrow> Inr (Some items)))"

text \<open>
  Every element of a tree view, nested ones included; and the children of a node in the
  condensed tree (none for a node that is not a parent).
\<close>

fun rendered :: "li \<Rightarrow> li list" where
  "rendered (Li node sz lam toggle link items) =
     Li node sz lam toggle link items # concat (map rendered items)"

definition children_of :: "tree_row list \<Rightarrow> int \<Rightarrow> int list" where
  "children_of tree node = map child (filter (\<lambda>r. parent r = node) tree)"

text \<open>
  What one element of the tree view is expected to show: the size of its node, above 1;
  the node's \<open>lambda\<close>; the link of the node's final cluster label, if it has one; as
  nested elements, those children of the node whose size is above 1, in order; and the
  toggle exactly when there are nested elements.
\<close>

definition item_ok :: "hierarchy_env \<Rightarrow> li \<Rightarrow> bool" where
  "item_ok env x =
     (li_size x = node_size (env_tree env) (li_node x) \<and> 1 < li_size x
      \<and> li_lambda x = node_lambda (env_tree env) (li_node x)
      \<and> li_link x = map_option (make_link (env_colors env) (env_descriptions env))
                       (final_cluster_label (env_c2n env) (li_node x))
      \<and> map li_node (li_children x) =
           filter (\<lambda>c. 1 < node_size (env_tree env) c) (children_of (env_tree env) (li_node x))
      \<and> li_toggle x = (li_children x \<noteq> []))"


text \<open>
  A recursion depth that suffices for a node, in a tree whose clusters are numbered after
  their parents: one more than the number of parents numbered from the node on.
\<close>

definition fuel_enough :: "tree_row list \<Rightarrow> nat \<Rightarrow> int \<Rightarrow> bool" where
  "fuel_enough tree depth node =
     (if node \<in> parent ` set tree then card {p \<in> parent ` set tree. node \<le> p} < depth
      else 0 < depth)"

section \<open>The report exporters of \<open>Claim Clustering_Report.py\<close>\<close>

text \<open>
  \<open>generate_cluster_colors\<close>. The colours come from \<open>colorsys.hsv_to_rgb\<close> and float
  formatting: \<open>palette i n\<close> stands for the \<open>i\<close>-th of \<open>n\<close> colours.
  \<^verbatim>\<open>
    unique_clusters = sorted([c for c in self.df["cluster"].unique() if c != -1])
    self.color_map = {cluster: colors[i] for i, cluster in enumerate(unique_clusters)}
    self.color_map[-1] = '#cccccc'
  \<close>
\<close>

definition generate_cluster_colors ::
    "(nat \<Rightarrow> nat \<Rightarrow> string) \<Rightarrow> visualizer \<Rightarrow> py_error + visualizer" where
  "generate_cluster_colors palette viz =
     (case n_clusters viz of
        None \<Rightarrow> Inl AttributeError
      | Some n \<Rightarrow>
          (case col_cluster (df viz) of
             None \<Rightarrow> Inl KeyError
           | Some cl \<Rightarrow>
               (let colors = map (\<lambda>i. palette i (nat n)) [0..<nat n];
                    unique_clusters = filter (\<lambda>c. c \<noteq> -1) (sort (remdups cl))
                in if length colors < length unique_clusters then Inl IndexError
                   else Inr (viz\<lparr>color_map :=
                          Some (zip unique_clusters colors @ [(-1, ''#cccccc'')])\<rparr>))))"

text \<open>
  What the two reports hold. The markup and the number formatting around these values
  are not modelled; the values are the ones the f-strings print.
\<close>

record text_report =
  tr_generated :: string
  tr_total :: nat
  tr_n_clusters :: int
  tr_n_noise :: nat
  tr_noise_percent :: real
  tr_hierarchy :: "(nat \<times> int \<times> int) list"
  tr_hierarchy_failed :: bool
  tr_details :: "(int \<times> nat \<times> real \<times> ustring list option) list"

record cluster_card =
  card_id :: int
  card_color :: string
  card_size :: nat
  card_avg_confidence :: real
  card_keywords :: "ustring list"
  card_samples :: "sample_row list"

record html_report =
  hr_generated :: string
  hr_total :: nat
  hr_n_clusters :: int
  hr_n_noise :: nat
  hr_noise_ratio :: real
  hr_hierarchy :: "li list option"
  hr_clusters :: "cluster_card list"

text \<open>
  A file of the output directory: a finished report, or a file that was opened for
  writing and left incomplete by an exception.
\<close>

datatype report = TextReport text_report | HtmlReport html_report | Incomplete

text \<open>
  \<open>print_hierarchy_to_file\<close> of the text exporter: the lines written so far (level, node,
  size) and whether the traversal completed. The first argument bounds the recursion
  depth; running out of it is the \<open>RecursionError\<close> that the surrounding \<open>try\<close> catches.
  \<^verbatim>\<open>
    def print_hierarchy_to_file(node, level=0):
        size = node_sizes.get(node, sum(node_sizes.get(c, 1) for c in parent_children.get(node, [])))
        if size > 1:
            f.write(f"{'  ' * level}... Node {int(node)} (size: {int(size)})\n")
            if node in parent_children:
                for child in parent_children[node]:
                    print_hierarchy_to_file(child, level + 1)
  \<close>
\<close>

definition text_node_size :: "tree_row list \<Rightarrow> int \<Rightarrow> int" where
  "text_node_size tree node =
     (case node_sizes_direct tree node of
        Some s \<Rightarrow> s
      | None \<Rightarrow>
          sum_list (map (\<lambda>c. case node_sizes_direct tree c of Some s \<Rightarrow> s | None \<Rightarrow> 1)
                     (case parent_children tree node of Some cs \<Rightarrow> cs | None \<Rightarrow> [])))"

fun print_hierarchy ::
    "nat \<Rightarrow> tree_row list \<Rightarrow> nat \<Rightarrow> (nat \<times> int \<times> int) list \<Rightarrow> int
      \<Rightarrow> (nat \<times> int \<times> int) list \<times> bool"
  and print_children ::
    "nat \<Rightarrow> tree_row list \<Rightarrow> nat \<Rightarrow> (nat \<times> int \<times> int) list \<Rightarrow> int list
      \<Rightarrow> (nat \<times> int \<times> int) list \<times> bool" where
  "print_hierarchy 0 tree level lines node = (lines, False)"
| "print_hierarchy (Suc depth) tree level lines node =
     (let sz = text_node_size tree node in
      if sz > 1 then
        (case parent_children tree node of
           None \<Rightarrow> (lines @ [(level, node, sz)], True)
         | Some cs \<Rightarrow> print_children depth tree (level + 1) (lines @ [(level, node, sz)]) cs)
      else (lines, True))"
| "print_children depth tree level lines [] = (lines, True)"
| "print_children depth tree level lines (c # cs) =
     (case print_hierarchy depth tree level lines c of
        (lines', False) \<Rightarrow> (lines', False)
      | (lines', True) \<Rightarrow> print_children depth tree level lines' cs)"

text \<open>
  The per-cluster loops of both exporters run over
  \<open>sorted(self.df[self.df["cluster"] != -1]["cluster"].unique())\<close>; \<open>data\<close> is the
  cluster's rows and \<open>data['probability'].mean()\<close> their mean probability.
\<close>

definition avg_confidence :: "int list \<Rightarrow> real list \<Rightarrow> int \<Rightarrow> real" where
  "avg_confidence cl pr cid = mean (map (\<lambda>i. pr ! i) (cluster_rows cl cid))"

definition text_details ::
    "visualizer \<Rightarrow> py_error + (int \<times> nat \<times> real \<times> ustring list option) list" where
  "text_details viz =
     (case col_cluster (df viz) of
        None \<Rightarrow> Inl KeyError
      | Some cl \<Rightarrow>
          (let ids = filter (\<lambda>cid. cid \<noteq> -1) (sort (remdups cl)) in
           if ids = [] then Inr []
           else
             (case col_probability (df viz) of
                None \<Rightarrow> Inl KeyError
              | Some pr \<Rightarrow>
                  Inr (map (\<lambda>cid. (cid, length (cluster_rows cl cid), avg_confidence cl pr cid,
                         map_option d_keywords
                           (map_of (case cluster_descriptions viz of Some ds \<Rightarrow> ds | None \<Rightarrow> [])
                              cid))) ids))))"

text \<open>
  The body of the \<open>with open(output_path, 'w')\<close> block of
  \<open>export_hierarchical_clustering_results\<close>: the report, or the exception that leaves the
  file incomplete. \<open>self.n_noise / self.n_samples\<close> divides by zero for an empty table.
\<close>

definition text_report_body ::
    "nat \<Rightarrow> string \<Rightarrow> visualizer \<Rightarrow> py_error + text_report" where
  "text_report_body recursion_limit now viz =
     (case (n_clusters viz, n_noise viz) of
        (Some nc, Some nn) \<Rightarrow>
          if n_samples viz = 0 then Inl ZeroDivisionError
          else
            (case clusterer viz of
               None \<Rightarrow> Inl AttributeError
             | Some c \<Rightarrow>
                 (let (lines, completed) =
                        (case condensed_tree c of
                           None \<Rightarrow> ([], True)
                         | Some tree \<Rightarrow> print_children recursion_limit tree 0 [] (root_nodes tree))
                  in bind_err (text_details viz) (\<lambda>details.
                       Inr \<lparr>tr_generated = now, tr_total = n_samples viz, tr_n_clusters = nc,
                            tr_n_noise = nn,
                            tr_noise_percent = real nn / real (n_samples viz) * 100,
                            tr_hierarchy = lines, tr_hierarchy_failed = (\<not> completed),
                            tr_details = details\<rparr>)))
      | _ \<Rightarrow> Inl AttributeError)"

text \<open>
  \<open>export_hierarchical_clustering_results\<close>. The result is the exception raised, if any,
  the visualizer afterwards and the files afterwards. \<open>sorter\<close> is the external ordering
  used when the descriptors have to be computed first.
\<close>

definition export_hierarchical_clustering_results ::
    "unicode \<Rightarrow> (real list \<Rightarrow> nat list) \<Rightarrow> nat \<Rightarrow> string \<Rightarrow> visualizer \<Rightarrow> string
      \<Rightarrow> (string \<rightharpoonup> report)
      \<Rightarrow> py_error option \<times> visualizer \<times> (string \<rightharpoonup> report)" where
  "export_hierarchical_clustering_results ucd sorter recursion_limit now viz output_path files =
     (case (if cluster_descriptions viz = None then extract_cluster_keywords ucd sorter viz 5 2
            else Inr viz) of
        Inl e \<Rightarrow> (Some e, viz, files)
      | Inr viz1 \<Rightarrow>
          (case text_report_body recursion_limit now viz1 of
             Inl e \<Rightarrow> (Some e, viz1, files(output_path \<mapsto> Incomplete))
           | Inr r \<Rightarrow> (None, viz1, files(output_path \<mapsto> TextReport r))))"

text \<open>
  The cluster cards of the HTML report, \<open>clusters_html\<close>:
  \<open>desc = self.cluster_descriptions.get(cid, {})\<close>, \<open>color = self.color_map.get(cid,
  '#6c757d')\<close>, \<open>desc.get('size', 0)\<close>, \<open>desc.get('keywords', [])\<close>,
  \<open>desc.get('sample_rows', [])\<close>.
\<close>

definition cluster_cards ::
    "visualizer \<Rightarrow> (int \<times> string) list \<Rightarrow> (int \<times> descriptor) list \<Rightarrow> py_error + cluster_card list" where
  "cluster_cards viz colors descriptions =
     (case col_cluster (df viz) of
        None \<Rightarrow> Inl KeyError
      | Some cl \<Rightarrow>
          (let ids = filter (\<lambda>cid. cid \<noteq> -1) (sort (remdups cl)) in
           if ids = [] then Inr []
           else
             (case col_probability (df viz) of
                None \<Rightarrow> Inl KeyError
              | Some pr \<Rightarrow>
                  Inr (map (\<lambda>cid.
                         \<lparr>card_id = cid,
                          card_color = (case map_of colors cid of Some c \<Rightarrow> c | None \<Rightarrow> ''#6c757d''),
                          card_size = (case map_of descriptions cid of Some d \<Rightarrow> d_size d | None \<Rightarrow> 0),
                          card_avg_confidence = avg_confidence cl pr cid,
                          card_keywords =
                            (case map_of descriptions cid of Some d \<Rightarrow> d_keywords d | None \<Rightarrow> []),
                          card_samples =
                            (case map_of descriptions cid of Some d \<Rightarrow> d_sample_rows d | None \<Rightarrow> [])\<rparr>)
                       ids))))"

text \<open>
  \<open>export_hierarchical_report_html\<close>: the caches are filled when absent, the page is
  assembled, and only then is the file opened and written.
\<close>

definition html_report_body ::
    "nat \<Rightarrow> string \<Rightarrow> visualizer \<Rightarrow> py_error + html_report" where
  "html_report_body recursion_limit now viz =
     (case (clusterer viz, cluster_descriptions viz, color_map viz) of
        (Some c, Some descriptions, Some colors) \<Rightarrow>
          bind_err (hierarchy_items recursion_limit c colors descriptions) (\<lambda>hierarchy.
          bind_err (cluster_cards viz colors descriptions) (\<lambda>cards.
            (case (n_clusters viz, n_noise viz) of
               (Some nc, Some nn) \<Rightarrow>
                 Inr \<lparr>hr_generated = now, hr_total = n_samples viz, hr_n_clusters = nc,
                      hr_n_noise = nn,
                      hr_noise_ratio =
                        (if n_samples viz > 0 then real nn / real (n_samples viz) else 0),
                      hr_hierarchy = hierarchy, hr_clusters = cards\<rparr>
             | _ \<Rightarrow> Inl AttributeError)))
      | _ \<Rightarrow> Inl AttributeError)"

definition export_hierarchical_report_html ::
    "unicode \<Rightarrow> (real list \<Rightarrow> nat list) \<Rightarrow> (nat \<Rightarrow> nat \<Rightarrow> string) \<Rightarrow> nat \<Rightarrow> string
      \<Rightarrow> visualizer \<Rightarrow> string
      \<Rightarrow> (string \<rightharpoonup> report) \<Rightarrow> py_error option \<times> visualizer \<times> (string \<rightharpoonup> report)" where
  "export_hierarchical_report_html ucd sorter palette recursion_limit now viz output_path files =
     (case (if cluster_descriptions viz = None then extract_cluster_keywords ucd sorter viz 5 2
            else Inr viz) of
        Inl e \<Rightarrow> (Some e, viz, files)
      | Inr viz1 \<Rightarrow>
          (case (if color_map viz1 = None then generate_cluster_colors palette viz1
                 else Inr viz1) of
             Inl e \<Rightarrow> (Some e, viz1, files)
           | Inr viz2 \<Rightarrow>
               (case html_report_body recursion_limit now viz2 of
                  Inl e \<Rightarrow> (Some e, viz2, files)
                | Inr r \<Rightarrow> (None, viz2, files(output_path \<mapsto> HtmlReport r)))))"

section \<open>A small table used to instantiate the theorems\<close>

text \<open>
  The tables of the Unicode database on the code points 128 to 255 (Latin-1): the letters
  and the numeric characters, the two spaces U+0085 and U+00A0, the three superscript
  digits, and the capitals U+00C0 to U+00DE, which \<open>str.lower\<close> moves up by 32. The
  texts of the examples use no code point above 255.
\<close>

definition ex_unicode :: unicode where
  "ex_unicode =
     \<lparr>uc_alnum = (\<lambda>c. c \<in> {170, 178, 179, 181, 185, 186, 188, 189, 190}
                        \<or> (192 \<le> c \<and> c \<le> 255 \<and> c \<noteq> 215 \<and> c \<noteq> 247)),
      uc_space = (\<lambda>c. c = 133 \<or> c = 160),
      uc_decimal = (\<lambda>c. False),
      uc_digit = (\<lambda>c. c \<in> {178, 179, 185}),
      uc_lower = (\<lambda>s i. if 192 \<le> s ! i \<and> s ! i \<le> 222 \<and> s ! i \<noteq> 215
                         then [s ! i + 32] else [s ! i])\<rparr>"

text \<open>
  Five rows; the flat clustering puts rows 0 to 2 in cluster 0, row 3 in cluster 1 and
  leaves row 4 as noise. In the condensed tree the root 5 splits into the clusters 6
  (rows 0 to 2) and 7 (rows 3 and 4).
\<close>

definition ex_df :: frame where
  "ex_df = \<lparr>col_text = [ustr ''The war began.'', ustr ''War and peace'', ustr ''a war of words'', ustr ''Treaty of 1919, 1919'', ustr ''Noise''],
            col_source_file = [''a.json'', ''a.json'', ''b.json'', ''b.json'', ''c.json''],
            col_embedding = [[1, 0, 0], [1, 0, 1], [1, 1, 0], [0, 1, 1], [5, 5, 5]],
            col_x = None, col_y = None, col_x_norm = None, col_y_norm = None,
            col_cluster = None, col_probability = None, col_outlier_score = None\<rparr>"

definition ex_viz :: visualizer where
  "ex_viz = \<lparr>random_state = 42, df = ex_df,
             X = [[1, 0, 0], [1, 0, 1], [1, 1, 0], [0, 1, 1], [5, 5, 5]],
             n_samples = 5, XY = None,
             XY_normalized = Some [[0, 0], [0, 1], [1, 0], [3, 3], [9, 9]],
             clusterer = None, n_clusters = None, n_noise = None,
             cluster_descriptions = None, color_map = None\<rparr>"

definition ex_tree :: "tree_row list" where
  "ex_tree =
    [\<lparr>parent = 5, child = 6, lambda_val = 1/2, child_size = 3\<rparr>,
     \<lparr>parent = 5, child = 7, lambda_val = 1/2, child_size = 2\<rparr>,
     \<lparr>parent = 6, child = 0, lambda_val = 2, child_size = 1\<rparr>,
     \<lparr>parent = 6, child = 1, lambda_val = 2, child_size = 1\<rparr>,
     \<lparr>parent = 6, child = 2, lambda_val = 3, child_size = 1\<rparr>,
     \<lparr>parent = 7, child = 3, lambda_val = 1, child_size = 1\<rparr>,
     \<lparr>parent = 7, child = 4, lambda_val = 1, child_size = 1\<rparr>]"

definition ex_hdbscan :: hdbscan where
  "ex_hdbscan = \<lparr>labels = [0, 0, 0, 1, -1],
                 probabilities = [1, 1/2, 3/4, 1, 0],
                 outlier_scores = [0, 1/4, 1/8, 0, 9/10],
                 condensed_tree = Some ex_tree,
                 cluster_map = [(6, 0), (7, 1)],
                 relative_validity = Some (1/2)\<rparr>"

definition ex_fit :: "int \<Rightarrow> int \<Rightarrow> real list list \<Rightarrow> py_error + hdbscan" where
  "ex_fit mcs ms xyn = Inr ex_hdbscan"

text \<open>A reducer returning three components per row, and a table of a single row.\<close>

definition ex_reducer :: "real list list \<Rightarrow> real list list" where
  "ex_reducer m = [[0, 0, 1], [0, 2, 1], [2, 0, 1], [2, 2, 1], [1, 1, 1]]"

definition ex_single_viz :: visualizer where
  "ex_single_viz = \<lparr>random_state = 42,
     df = \<lparr>col_text = [ustr ''Only one claim''], col_source_file = [''a.json''],
           col_embedding = [[1, 2, 3]],
           col_x = None, col_y = None, col_x_norm = None, col_y_norm = None,
           col_cluster = None, col_probability = None, col_outlier_score = None\<rparr>,
     X = [[1, 2, 3]], n_samples = 1, XY = None, XY_normalized = None,
     clusterer = None, n_clusters = None, n_noise = None,
     cluster_descriptions = None, color_map = None\<rparr>"

text \<open>
  A clusterer whose labelling depends on \<open>min_cluster_size\<close>: no cluster at 20, three at
  30, two at 40, five at 50 and at 75, one from 100 on; and the result expected for each
  tried size.
\<close>

definition ex_fit_sweep :: "int \<Rightarrow> int \<Rightarrow> real list list \<Rightarrow> py_error + hdbscan" where
  "ex_fit_sweep mcs ms xyn =
     Inr (ex_hdbscan\<lparr>labels := (if mcs < 30 then [-1, -1, -1, -1, -1]
                                 else if mcs < 40 then [0, 1, 2, 2, -1]
                                 else if mcs < 50 then [0, 0, 1, 1, -1]
                                 else if mcs < 100 then [0, 1, 2, 3, 4]
                                 else [0, 0, 0, 0, 0])\<rparr>)"

definition ex_result :: "int \<Rightarrow> param_result" where
  "ex_result p = \<lparr>min_cluster_size = p, min_samples = max 5 (p div 2),
     res_n_clusters = (if p < 30 then 0 else if p < 40 then 3 else if p < 50 then 2
                       else if p < 100 then 5 else 1),
     noise_ratio = (if p < 30 then 1 else if p < 50 then 1 / 5 else 0)\<rparr>"

text \<open>A clusterer for the assessment whose validity score is unavailable when \<open>min_samples = 3\<close>.\<close>

definition ex_fit_mst :: "int \<Rightarrow> int \<Rightarrow> real list list \<Rightarrow> py_error + hdbscan" where
  "ex_fit_mst mcs ms xyn =
     Inr (ex_hdbscan\<lparr>relative_validity := (if ms = 3 then None else Some (1 / 2))\<rparr>)"

text \<open>
  The table after clustering, and an ordering by decreasing value that keeps equal values
  in their original order.
\<close>

definition ex_clustered :: visualizer where
  "ex_clustered = ex_viz\<lparr>clusterer := Some ex_hdbscan,
     df := ex_df\<lparr>col_cluster := Some [0, 0, 0, 1, -1],
                 col_probability := Some [1, 1/2, 3/4, 1, 0],
                 col_outlier_score := Some [0, 1/4, 1/8, 0, 9/10]\<rparr>,
     n_clusters := Some 2, n_noise := Some 1\<rparr>"

definition ex_sorter :: "real list \<Rightarrow> nat list" where
  "ex_sorter ps = sort_key (\<lambda>k. - ps ! k) [0..<length ps]"

text \<open>Colours and descriptors for the two clusters of the example.\<close>

definition ex_colors :: "(int \<times> string) list" where
  "ex_colors = [(0, ''#e53d3d''), (1, ''#3de5e5''), (-1, ''#cccccc'')]"

definition ex_descriptions :: "(int \<times> descriptor) list" where
  "ex_descriptions =
     [(0, \<lparr>d_keywords = [ustr ''war'', ustr ''the'', ustr ''began'', ustr ''and'', ustr ''peace''], d_size = 3,
           d_top_words_with_freq = [], d_sample_rows = []\<rparr>),
      (1, \<lparr>d_keywords = [ustr ''1919'', ustr ''treaty''], d_size = 1,
           d_top_words_with_freq = [], d_sample_rows = []\<rparr>)]"

definition ex_palette :: "nat \<Rightarrow> nat \<Rightarrow> string" where
  "ex_palette i n = (if i = 0 then ''#e53d3d'' else ''#3de5e5'')"

section \<open>Preprocessing: \<open>generate_previous_current_pairs.py\<close>\<close>

text \<open>
  An item of the sentence-level transcript is a JSON object; the script reads it only
  through \<open>item.get('role')\<close>, which is \<open>None\<close> when the key is missing. The remaining
  keys travel unchanged into the output, so they are kept as one opaque payload.
\<close>

record 'a item =
  role :: "string option"
  payload :: 'a

text \<open>
  The grouping loop
  \<^verbatim>\<open>
    pairs = []; i = 0
    while i < len(data) - 1:
        interviewer = data[i]; interviewee = data[i + 1]
        if interviewer.get('role') == 'Interviewer' and interviewee.get('role') == 'Interviewee':
            pairs.append([interviewer, interviewee]); i += 2
        else:
            i += 1
  \<close>
  with the loop variables \<open>i\<close> and \<open>pairs\<close> as arguments. \<open>len(data) - 1\<close> is \<open>-1\<close>
  for the empty list, hence the comparison over \<open>int\<close>.
\<close>

function group_pairs :: "'a item list \<Rightarrow> nat \<Rightarrow> 'a item list list \<Rightarrow> 'a item list list" where
  "group_pairs data i pairs =
     (if int i < int (length data) - 1 then
        (let interviewer = data ! i; interviewee = data ! (i + 1) in
         if role interviewer = Some ''Interviewer'' \<and> role interviewee = Some ''Interviewee''
         then group_pairs data (i + 2) (pairs @ [[interviewer, interviewee]])
         else group_pairs data (i + 1) pairs)
      else pairs)"
  by pat_completeness auto
termination
  by (relation "measure (\<lambda>(data, i, pairs). length data - i)") auto

declare group_pairs.simps [simp del]

text \<open>
  The positions at which the loop forms a pair: the same scan, recording the index
  \<open>i\<close> instead of the two items. It is used to state where the pairs come from.
\<close>

function pair_positions :: "'a item list \<Rightarrow> nat \<Rightarrow> nat list" where
  "pair_positions data i =
     (if int i < int (length data) - 1 then
        (if role (data ! i) = Some ''Interviewer'' \<and> role (data ! (i + 1)) = Some ''Interviewee''
         then i # pair_positions data (i + 2)
         else pair_positions data (i + 1))
      else [])"
  by pat_completeness auto
termination
  by (relation "measure (\<lambda>(data, i). length data - i)") auto

declare pair_positions.simps [simp del]

text \<open>The JSON document written for one pair.\<close>

record 'a output_data =
  previous_utterances :: "'a item list option"
  current_utterance :: "'a item list"

definition pair_file_name :: "nat \<Rightarrow> string" where
  "pair_file_name pair_number = ''Previous-current pair - '' @ str_nat pair_number @ ''.json''"

text \<open>
  The writing loop \<open>for idx, current_pair in enumerate(pairs)\<close>, by recursion over the
  enumerated list: the files written so far, each with its name and content, and the
  running \<open>pair_count\<close>.
\<close>

fun write_pairs :: "'a item list list \<Rightarrow> (nat \<times> 'a item list) list
    \<Rightarrow> (string \<times> 'a output_data) list \<times> nat \<Rightarrow> (string \<times> 'a output_data) list \<times> nat" where
  "write_pairs pairs [] (files, pair_count) = (files, pair_count)"
| "write_pairs pairs ((idx, current_pair) # todo) (files, pair_count) =
     (let pair_number = idx + 1;
          previous = (if idx = 0 then None else Some (pairs ! (idx - 1)));
          output = \<lparr>previous_utterances = previous, current_utterance = current_pair\<rparr>
      in write_pairs pairs todo (files @ [(pair_file_name pair_number, output)], pair_count + 1))"

definition generate_previous_current_pairs ::
    "'a item list \<Rightarrow> (string \<times> 'a output_data) list \<times> nat" where
  "generate_previous_current_pairs data =
     (let pairs = group_pairs data 0 [] in write_pairs pairs (enumerate 0 pairs) ([], 0))"

definition ex_data :: "unit item list" where
  "ex_data =
    [\<lparr>role = Some ''Interviewer'', payload = ()\<rparr>, \<lparr>role = Some ''Interviewee'', payload = ()\<rparr>,
     \<lparr>role = Some ''Interviewee'', payload = ()\<rparr>, \<lparr>role = None, payload = ()\<rparr>,
     \<lparr>role = Some ''Interviewer'', payload = ()\<rparr>,
     \<lparr>role = Some ''Interviewer'', payload = ()\<rparr>, \<lparr>role = Some ''Interviewee'', payload = ()\<rparr>,
     \<lparr>role = Some ''Interviewer'', payload = ()\<rparr>]"

section \<open>Strings\<close>

lemma lower_ascii:
  assumes "\<forall>c\<in>set s. c < 128"
  shows "lower ucd s = map (\<lambda>c. if 65 \<le> c \<and> c \<le> 90 then c + 32 else c) s"
proof -
  have "map (lower_at ucd s) [0..<length s]
      = map (\<lambda>i. [if 65 \<le> s ! i \<and> s ! i \<le> 90 then s ! i + 32 else s ! i]) [0..<length s]"
    using assms by (intro map_cong) (auto simp: lower_at_def Let_def)
  also have "concat \<dots> = map (\<lambda>i. if 65 \<le> s ! i \<and> s ! i \<le> 90 then s ! i + 32 else s ! i) [0..<length s]"
    by (induction "[0..<length s]") (simp_all add: concat_map_singleton)
  also have "\<dots> = map (\<lambda>c. if 65 \<le> c \<and> c \<le> 90 then c + 32 else c) (map ((!) s) [0..<length s])"
    by (simp add: comp_def)
  also have "map ((!) s) [0..<length s] = s" by (rule map_nth)
  finally show ?thesis
    unfolding lower_def .
qed

lemma split_acc_runs:
  assumes "\<forall>c\<in>set cur. \<not> is_space ucd c"
  shows "\<exists>segs tail. split_acc ucd cur s = map snd segs
           \<and> cur @ s = concat (map (\<lambda>(sep, w). sep @ w) segs) @ tail
           \<and> (\<forall>(sep, w)\<in>set segs. (\<forall>c\<in>set sep. is_space ucd c) \<and> w \<noteq> []
                  \<and> (\<forall>c\<in>set w. \<not> is_space ucd c))
           \<and> (\<forall>c\<in>set tail. is_space ucd c)
           \<and> (\<forall>(sep, w)\<in>set (tl segs). sep \<noteq> [])
           \<and> (cur \<noteq> [] \<longrightarrow> segs \<noteq> [] \<and> fst (hd segs) = [])"
  using assms
proof (induction s arbitrary: cur)
  case Nil
  show ?case
  proof (cases "cur = []")
    case True
    then show ?thesis by (intro exI [of _ "[]"]) simp
  next
    case False
    with Nil show ?thesis
      by (intro exI [of _ "[([], cur)]"] exI [of _ "[]"]) simp
  qed
next
  case (Cons c cs)
  show ?case
  proof (cases "is_space ucd c")
    case False
    with Cons.prems have "\<forall>c\<in>set (cur @ [c]). \<not> is_space ucd c" by simp
    from Cons.IH [OF this] obtain segs tail where
      "split_acc ucd (cur @ [c]) cs = map snd segs"
      "(cur @ [c]) @ cs = concat (map (\<lambda>(sep, w). sep @ w) segs) @ tail"
      "\<forall>(sep, w)\<in>set segs. (\<forall>c\<in>set sep. is_space ucd c) \<and> w \<noteq> []
                  \<and> (\<forall>c\<in>set w. \<not> is_space ucd c)"
      "\<forall>c\<in>set tail. is_space ucd c"
      "\<forall>(sep, w)\<in>set (tl segs). sep \<noteq> []"
      "segs \<noteq> [] \<and> fst (hd segs) = []"
      by auto
    with False show ?thesis
      by (intro exI [of _ segs] exI [of _ tail]) simp
  next
    case True
    from Cons.IH [of "[]"] obtain segs tail where
      a: "split_acc ucd [] cs = map snd segs"
      and b: "cs = concat (map (\<lambda>(sep, w). sep @ w) segs) @ tail"
      and c: "\<forall>(sep, w)\<in>set segs. (\<forall>c\<in>set sep. is_space ucd c) \<and> w \<noteq> []
                  \<and> (\<forall>c\<in>set w. \<not> is_space ucd c)"
      and d: "\<forall>c\<in>set tail. is_space ucd c"
      and e: "\<forall>(sep, w)\<in>set (tl segs). sep \<noteq> []"
      by auto
    define segs' tail' where "segs' = (case segs of [] \<Rightarrow> [] | (sep, w) # r \<Rightarrow> (c # sep, w) # r)"
      and "tail' = (case segs of [] \<Rightarrow> c # tail | _ \<Rightarrow> tail)"
    have a': "split_acc ucd [] cs = map snd segs'"
      using a by (simp add: segs'_def split: list.splits)
    have b': "c # cs = concat (map (\<lambda>(sep, w). sep @ w) segs') @ tail'"
      using b by (simp add: segs'_def tail'_def split: list.splits)
    have c': "\<forall>(sep, w)\<in>set segs'. (\<forall>c\<in>set sep. is_space ucd c) \<and> w \<noteq> []
                  \<and> (\<forall>c\<in>set w. \<not> is_space ucd c)"
      using c True by (cases segs) (force simp: segs'_def)+
    have d': "\<forall>c\<in>set tail'. is_space ucd c"
      using d True by (auto simp: tail'_def split: list.splits)
    have e': "\<forall>(sep, w)\<in>set segs'. sep \<noteq> []"
      using e by (cases segs) (force simp: segs'_def)+
    have e'': "\<forall>(sep, w)\<in>set (tl segs'). sep \<noteq> []"
      using e' by (cases segs') auto
    show ?thesis
    proof (cases "cur = []")
      case True
      have "split_acc ucd cur (c # cs) = map snd segs'"
        using True \<open>is_space ucd c\<close> a' by simp
      moreover have "cur @ c # cs = concat (map (\<lambda>(sep, w). sep @ w) segs') @ tail'"
        using True b' by simp
      ultimately show ?thesis
        using c' d' e'' True
        by (intro exI [of _ segs'] exI [of _ tail']) blast
    next
      case False
      have "split_acc ucd cur (c # cs) = map snd (([], cur) # segs')"
        using False \<open>is_space ucd c\<close> a' by simp
      moreover have "cur @ c # cs
          = concat (map (\<lambda>(sep, w). sep @ w) (([], cur) # segs')) @ tail'"
        using b' by simp
      moreover have "\<forall>(sep, w)\<in>set (([], cur) # segs'). (\<forall>c\<in>set sep. is_space ucd c) \<and> w \<noteq> []
                  \<and> (\<forall>c\<in>set w. \<not> is_space ucd c)"
        using c' False Cons.prems by simp
      moreover have "\<forall>(sep, w)\<in>set (tl (([], cur) # segs')). sep \<noteq> []"
        using e' by simp
      moreover have "([], cur) # segs' \<noteq> [] \<and> fst (hd (([], cur) # segs')) = []" by simp
      ultimately show ?thesis
        using d'
        by (intro exI [of _ "([], cur) # segs'"] exI [of _ tail']) blast
    qed
  qed
qed

lemma split_ws_runs:
  "\<exists>segs tail. split_ws ucd s = map snd segs
     \<and> s = concat (map (\<lambda>(sep, w). sep @ w) segs) @ tail
     \<and> (\<forall>(sep, w)\<in>set segs. (\<forall>c\<in>set sep. is_space ucd c) \<and> w \<noteq> []
            \<and> (\<forall>c\<in>set w. \<not> is_space ucd c))
     \<and> (\<forall>c\<in>set tail. is_space ucd c)
     \<and> (\<forall>(sep, w)\<in>set (tl segs). sep \<noteq> [])"
  using split_acc_runs [of "[]" ucd s] unfolding split_ws_def by simp

section \<open>Cluster assignment\<close>

lemma count_clusters_card: "count_clusters ls = int (card (set ls - {-1}))"
proof (cases "-1 \<in> set ls")
  case True
  then have "card (set ls) > 0"
    by (auto simp: card_gt_0_iff)
  with True show ?thesis
    by (simp add: count_clusters_def length_remdups_card_conv card_Diff_singleton of_nat_diff)
next
  case False
  then show ?thesis
    by (simp add: count_clusters_def length_remdups_card_conv)
qed

lemma count_noise_card: "count_noise ls = card {i. i < length ls \<and> ls ! i = -1}"
  unfolding count_noise_def by (simp add: length_filter_conv_card)

text \<open>
  Claim C1, as amended. When the clusterer returns one label, one probability and one
  outlier score per row, \<open>cluster_embeddings\<close> returns, and afterwards the \<open>cluster\<close> and
  \<open>probability\<close> columns are the clusterer's \<open>labels_\<close> and \<open>probabilities_\<close>, unchanged;
  \<open>n_clusters\<close> is the number of distinct labels other than \<open>-1\<close> and \<open>n_noise\<close> the
  number of rows labelled \<open>-1\<close>. In the claim and predicate scripts the \<open>outlier_score\<close>
  column is the clusterer's \<open>outlier_scores_\<close>; in \<open>Cluster Assessment.py\<close> the method
  writes no such column and leaves it as it was.
\<close>

theorem cluster_embeddings_columns:
  assumes "XY_normalized viz = Some xyn" and "fit mcs ms xyn = Inr c"
    and "length (labels c) = len_df (df viz)"
    and "length (probabilities c) = len_df (df viz)"
    and "length (outlier_scores c) = len_df (df viz)"
  shows "(\<exists>viz'. cluster_embeddings fit viz mcs ms = Inr viz'
            \<and> col_cluster (df viz') = Some (labels c)
            \<and> col_probability (df viz') = Some (probabilities c)
            \<and> col_outlier_score (df viz') = Some (outlier_scores c)
            \<and> n_clusters viz' = Some (int (card (set (labels c) - {-1})))
            \<and> n_noise viz' = Some (card {i. i < len_df (df viz) \<and> labels c ! i = -1})
            \<and> len_df (df viz') = len_df (df viz))
       \<and> (\<exists>viz'. cluster_embeddings_assessment fit viz mcs ms = Inr viz'
            \<and> col_cluster (df viz') = Some (labels c)
            \<and> col_probability (df viz') = Some (probabilities c)
            \<and> col_outlier_score (df viz') = col_outlier_score (df viz)
            \<and> n_clusters viz' = Some (int (card (set (labels c) - {-1})))
            \<and> n_noise viz' = Some (card {i. i < len_df (df viz) \<and> labels c ! i = -1})
            \<and> len_df (df viz') = len_df (df viz))"
  using assms
  by (simp add: cluster_embeddings_def cluster_embeddings_assessment_def bind_err_def
      assign_column_def count_clusters_card count_noise_card len_df_def)

lemma ex_lengths:
  "len_df (df ex_viz) = 5" "length (labels ex_hdbscan) = 5"
  "length (probabilities ex_hdbscan) = 5" "length (outlier_scores ex_hdbscan) = 5"
  by (simp_all add: ex_viz_def ex_df_def len_df_def ex_hdbscan_def)

theorem cluster_embeddings_columns_witness:
  "XY_normalized ex_viz = Some [[0, 0], [0, 1], [1, 0], [3, 3], [9, 9]]
   \<and> ex_fit 2 1 [[0, 0], [0, 1], [1, 0], [3, 3], [9, 9]] = Inr ex_hdbscan
   \<and> length (labels ex_hdbscan) = len_df (df ex_viz)
   \<and> (\<exists>viz'. cluster_embeddings ex_fit ex_viz 2 1 = Inr viz'
          \<and> col_cluster (df viz') = Some [0, 0, 0, 1, -1]
          \<and> col_outlier_score (df viz') = Some [0, 1/4, 1/8, 0, 9/10])"
proof -
  have xyn: "XY_normalized ex_viz = Some [[0, 0], [0, 1], [1, 0], [3, 3], [9, 9]]"
    by (simp add: ex_viz_def)
  have fit: "ex_fit 2 1 [[0, 0], [0, 1], [1, 0], [3, 3], [9, 9]] = Inr ex_hdbscan"
    by (simp add: ex_fit_def)
  from cluster_embeddings_columns [of ex_viz _ ex_fit 2 1 ex_hdbscan, OF xyn fit] ex_lengths
  have "\<exists>viz'. cluster_embeddings ex_fit ex_viz 2 1 = Inr viz'
          \<and> col_cluster (df viz') = Some (labels ex_hdbscan)
          \<and> col_outlier_score (df viz') = Some (outlier_scores ex_hdbscan)"
    by auto
  with xyn fit ex_lengths show ?thesis
    by (simp add: ex_hdbscan_def)
qed

theorem cluster_embeddings_assessment_counterexample:
  "map_sum id (\<lambda>v. (col_cluster (df v), col_outlier_score (df v)))
     (cluster_embeddings_assessment ex_fit ex_viz 2 1) = Inr (Some [0, 0, 0, 1, -1], None)"
  by (simp add: cluster_embeddings_assessment_def ex_viz_def ex_fit_def ex_hdbscan_def
      ex_df_def bind_err_def assign_column_def len_df_def)

section \<open>Projection and normalization\<close>

lemma sum_list_map_div_const:
  fixes xs :: "'a list" and f :: "'a \<Rightarrow> real"
  shows "sum_list (map (\<lambda>v. f v / s) xs) = sum_list (map f xs) / s"
  by (induction xs) (simp_all add: add_divide_distrib)

lemma sum_list_map_minus_const:
  fixes xs :: "real list"
  shows "sum_list (map (\<lambda>v. v - c) xs) = sum_list xs - real (length xs) * c"
  by (induction xs) (simp_all add: algebra_simps)

lemma mean_standardize: "mean (standardize xs) = 0"
proof (cases "xs = []")
  case True
  then show ?thesis by (simp add: mean_def standardize_def)
next
  case False
  then have "real (length xs) \<noteq> 0" by simp
  then have "sum_list xs - real (length xs) * mean xs = 0"
    by (simp add: mean_def)
  then have "sum_list (map (\<lambda>v. (v - mean xs) / scale_of xs) xs) = 0"
    by (simp add: sum_list_map_div_const [of "\<lambda>v. v - mean xs"] sum_list_map_minus_const)
  then show ?thesis
    unfolding standardize_def by (subst mean_def) simp
qed

lemma variance_nonneg: "0 \<le> variance xs"
  unfolding variance_def mean_def
  by (intro divide_nonneg_nonneg sum_list_nonneg) auto

lemma variance_standardize:
  assumes "variance xs \<noteq> 0"
  shows "variance (standardize xs) = 1"
proof -
  have pos: "0 < variance xs"
    using assms variance_nonneg [of xs] by simp
  have sc: "(scale_of xs)\<^sup>2 = variance xs"
    using pos by (simp add: scale_of_def)
  have "variance (standardize xs) = mean (map (\<lambda>v. v\<^sup>2) (standardize xs))"
    by (simp add: variance_def [of "standardize xs"] mean_standardize)
  also have "\<dots> = mean (map (\<lambda>v. (v - mean xs)\<^sup>2 / (scale_of xs)\<^sup>2) xs)"
    by (simp add: standardize_def comp_def power_divide)
  also have "\<dots> = variance xs / (scale_of xs)\<^sup>2"
    by (simp add: mean_def variance_def sum_list_map_div_const)
  also have "\<dots> = 1"
    using pos sc by simp
  finally show ?thesis .
qed

lemma standardize_constant:
  assumes "variance xs = 0"
  shows "standardize xs = map (\<lambda>v. v - mean xs) xs"
  using assms by (simp add: standardize_def scale_of_def)

lemma column_StandardScaler:
  assumes "\<forall>r\<in>set m. j < length r"
  shows "column j (StandardScaler_fit_transform m) = standardize (column j m)"
proof (rule nth_equalityI)
  show "length (column j (StandardScaler_fit_transform m)) = length (standardize (column j m))"
    by (simp add: column_def StandardScaler_fit_transform_def standardize_def)
next
  fix i assume "i < length (column j (StandardScaler_fit_transform m))"
  then have i: "i < length m"
    by (simp add: column_def StandardScaler_fit_transform_def)
  with assms have "j < length (m ! i)" by simp
  with i show "column j (StandardScaler_fit_transform m) ! i = standardize (column j m) ! i"
    by (simp add: column_def StandardScaler_fit_transform_def)
qed

lemma variance_standardize_constant:
  assumes "variance xs = 0"
  shows "variance (standardize xs) = 0"
proof -
  have "variance (standardize xs) = mean (map (\<lambda>v. v\<^sup>2) (standardize xs))"
    by (simp add: variance_def [of "standardize xs"] mean_standardize)
  also have "\<dots> = mean (map (\<lambda>v. (v - mean xs)\<^sup>2) xs)"
    using assms by (simp add: standardize_def scale_of_def comp_def)
  also have "\<dots> = 0"
    using assms by (simp add: variance_def)
  finally show ?thesis .
qed

lemma reduce_dimensions_result:
  assumes "length (reducer (X viz)) = len_df (df viz)"
    and "\<forall>r\<in>set (reducer (X viz)). 2 \<le> length r"
  shows "reduce_dimensions reducer viz =
      Inr (viz\<lparr>XY := Some (reducer (X viz)),
               XY_normalized := Some (StandardScaler_fit_transform (reducer (X viz))),
               df := (df viz)\<lparr>col_x := Some (column 0 (reducer (X viz))),
                 col_y := Some (column 1 (reducer (X viz))),
                 col_x_norm := Some (column 0 (StandardScaler_fit_transform (reducer (X viz)))),
                 col_y_norm := Some (column 1 (StandardScaler_fit_transform (reducer (X viz))))\<rparr>\<rparr>)"
proof -
  define xy where "xy = reducer (X viz)"
  have noerr: "\<not> (\<exists>r\<in>set xy. length r < 2)"
    using assms(2) unfolding xy_def by fastforce
  have len: "length (column j xy) = len_df (df viz)"
    "length (column j (StandardScaler_fit_transform xy)) = len_df (df viz)" for j
    using assms(1) unfolding xy_def
    by (simp_all add: column_def StandardScaler_fit_transform_def)
  show ?thesis
    unfolding reduce_dimensions_def xy_def [symmetric] Let_def
    using noerr by (simp add: bind_err_def assign_column_def len)
qed

lemma reduce_dimensions_XY_normalized:
  assumes "reduce_dimensions reducer viz = Inr base"
  shows "XY_normalized base = Some (StandardScaler_fit_transform (reducer (X viz)))
    \<and> len_df (df base) = len_df (df viz)"
  using assms
  by (auto simp: reduce_dimensions_def Let_def bind_err_def assign_column_def len_df_def
      split: if_splits)

text \<open>
  Claim C5, as amended. When the reducer returns one row of at least two coordinates per
  table row, \<open>reduce_dimensions\<close> returns; columns \<open>x\<close> and \<open>y\<close> hold the first two
  components of the reduced embedding, whatever the number of components, and \<open>x_norm\<close>
  and \<open>y_norm\<close> hold the standardization of those two columns. Each normalized column
  has zero mean. Its variance is one when the reduced column is not constant, and zero
  when it is constant (a table of one row, for instance).
\<close>

theorem reduce_dimensions_projection:
  assumes "length (reducer (X viz)) = len_df (df viz)"
    and "\<forall>r\<in>set (reducer (X viz)). 2 \<le> length r"
  shows "\<exists>viz'. reduce_dimensions reducer viz = Inr viz'
      \<and> XY viz' = Some (reducer (X viz))
      \<and> col_x (df viz') = Some (column 0 (reducer (X viz)))
      \<and> col_y (df viz') = Some (column 1 (reducer (X viz)))
      \<and> col_x_norm (df viz') = Some (standardize (column 0 (reducer (X viz))))
      \<and> col_y_norm (df viz') = Some (standardize (column 1 (reducer (X viz))))
      \<and> mean (standardize (column 0 (reducer (X viz)))) = 0
      \<and> mean (standardize (column 1 (reducer (X viz)))) = 0
      \<and> variance (standardize (column 0 (reducer (X viz)))) =
          (if variance (column 0 (reducer (X viz))) = 0 then 0 else 1)
      \<and> variance (standardize (column 1 (reducer (X viz)))) =
          (if variance (column 1 (reducer (X viz))) = 0 then 0 else 1)"
proof -
  define xy where "xy = reducer (X viz)"
  have wide: "\<forall>r\<in>set xy. 0 < length r" "\<forall>r\<in>set xy. 1 < length r"
    using assms(2) unfolding xy_def by fastforce+
  have "column 0 (StandardScaler_fit_transform xy) = standardize (column 0 xy)"
    "column 1 (StandardScaler_fit_transform xy) = standardize (column 1 xy)"
    using wide by (simp_all only: column_StandardScaler)
  with reduce_dimensions_result [of reducer viz, OF assms] show ?thesis
    unfolding xy_def [symmetric]
    by (simp add: mean_standardize variance_standardize variance_standardize_constant)
qed

lemma ex_reducer_columns:
  "column 0 (ex_reducer (X ex_viz)) = [0, 0, 2, 2, 1]"
  "column 1 (ex_reducer (X ex_viz)) = [0, 2, 0, 2, 1]"
  by (simp_all add: ex_reducer_def column_def)

theorem reduce_dimensions_projection_witness:
  "length (ex_reducer (X ex_viz)) = len_df (df ex_viz)
   \<and> length (ex_reducer (X ex_viz) ! 0) = 3
   \<and> (\<exists>viz'. reduce_dimensions ex_reducer ex_viz = Inr viz'
        \<and> col_x (df viz') = Some [0, 0, 2, 2, 1] \<and> col_y (df viz') = Some [0, 2, 0, 2, 1]
        \<and> col_x_norm (df viz') = Some (standardize [0, 0, 2, 2, 1])
        \<and> variance (standardize [0, 0, 2, 2, 1]) = 1)"
proof -
  have len: "length (ex_reducer (X ex_viz)) = len_df (df ex_viz)"
    by (simp add: ex_reducer_def ex_lengths)
  have wide: "\<forall>r\<in>set (ex_reducer (X ex_viz)). 2 \<le> length r"
    by (simp add: ex_reducer_def)
  have var: "variance [0, 0, 2, 2, 1] = 4 / 5"
    by (simp add: variance_def mean_def power2_eq_square)
  from reduce_dimensions_projection [of ex_reducer ex_viz, OF len wide] len var show ?thesis
    unfolding ex_reducer_columns by (auto simp: ex_reducer_def)
qed

theorem reduce_dimensions_unit_variance_counterexample:
  "map_sum id (\<lambda>v. (col_x_norm (df v), map_option variance (col_x_norm (df v))))
     (reduce_dimensions (\<lambda>m. [[0, 0]]) ex_single_viz) = Inr (Some [0], Some 0)"
  by (simp add: reduce_dimensions_def ex_single_viz_def bind_err_def assign_column_def
      len_df_def column_def StandardScaler_fit_transform_def standardize_def scale_of_def
      variance_def mean_def Let_def)

section \<open>Parameter search\<close>

lemma fold_min_first_least:
  fixes key :: "'a \<Rightarrow> real"
  defines "step \<equiv> (\<lambda>y best. if key y < key best then y else best)"
  shows "\<exists>pre post. x # more_xs = pre @ fold step more_xs x # post
           \<and> (\<forall>y\<in>set pre. key (fold step more_xs x) < key y)
           \<and> (\<forall>y\<in>set post. key (fold step more_xs x) \<le> key y)"
proof (induction more_xs rule: rev_induct)
  case Nil
  show ?case by (rule exI [of _ "[]"], rule exI [of _ "[]"]) simp
next
  case (snoc y more_xs)
  then obtain pre post where d: "x # more_xs = pre @ fold step more_xs x # post"
    and lt: "\<forall>z\<in>set pre. key (fold step more_xs x) < key z"
    and le: "\<forall>z\<in>set post. key (fold step more_xs x) \<le> key z"
    by blast
  let ?b = "fold step more_xs x"
  show ?case
  proof (cases "key y < key ?b")
    case True
    then have new: "fold step (more_xs @ [y]) x = y" by (simp add: step_def)
    have "\<forall>z\<in>set (x # more_xs). key y < key z"
    proof
      fix z assume "z \<in> set (x # more_xs)"
      then have "z \<in> set pre \<or> z = ?b \<or> z \<in> set post" unfolding d by auto
      with lt le True show "key y < key z" by fastforce
    qed
    then show ?thesis
      unfolding new
      by (intro exI [of _ "x # more_xs"] exI [of _ "[]"]) simp
  next
    case False
    then have old: "fold step (more_xs @ [y]) x = ?b" by (simp add: step_def)
    have "x # more_xs @ [y] = pre @ ?b # (post @ [y])"
      using d by simp
    with lt le False show ?thesis
      unfolding old
      by (intro exI [of _ pre] exI [of _ "post @ [y]"]) auto
  qed
qed

lemma min_by_first_least:
  assumes "xs \<noteq> []"
  shows "\<exists>pre b post. min_by key xs = Inr b \<and> xs = pre @ b # post
           \<and> (\<forall>y\<in>set pre. key b < key y) \<and> (\<forall>y\<in>set post. key b \<le> key y)"
proof -
  from assms obtain x more_xs where xs: "xs = x # more_xs" by (cases xs) auto
  from fold_min_first_least [of x more_xs key] show ?thesis
    unfolding xs min_by_def by auto
qed

lemma sweep_found:
  assumes "\<forall>p\<in>set pre. evaluate_setting fit base p = Inr (r p) \<and> \<not> in_target_range target (r p)"
    and "evaluate_setting fit base s = Inr (r s)" and "in_target_range target (r s)"
  shows "sweep fit base target (pre @ s # post) acc = Inr (r s)"
  using assms by (induction pre arbitrary: acc) (simp_all add: bind_err_def)

lemma sweep_none:
  assumes "\<forall>p\<in>set sizes. evaluate_setting fit base p = Inr (r p) \<and> \<not> in_target_range target (r p)"
  shows "sweep fit base target sizes acc = min_by (midpoint_distance target) (acc @ map r sizes)"
  using assms by (induction sizes arbitrary: acc) (simp_all add: bind_err_def)

lemma evaluate_setting_fields:
  assumes "evaluate_setting fit base p = Inr res"
  shows "min_cluster_size res = p \<and> min_samples res = max 5 (p div 2)
    \<and> (\<exists>xyn c. XY_normalized base = Some xyn \<and> fit p (max 5 (p div 2)) xyn = Inr c
          \<and> res_n_clusters res = int (card (set (labels c) - {-1}))
          \<and> noise_ratio res = real (card {i. i < length (labels c) \<and> labels c ! i = -1})
                / real (length (labels c)))"
  using assms
  by (auto simp: evaluate_setting_def cluster_embeddings_def viz_test_of_def bind_err_def
      assign_column_def Let_def len_df_def count_clusters_card count_noise_card
      split: option.splits sum.splits if_splits)


lemma append_Cons_index:
  assumes "xs = pre @ s # post"
  shows "length pre < length xs \<and> pre = take (length pre) xs \<and> s = xs ! length pre
    \<and> post = drop (Suc (length pre)) xs"
  using assms by simp

text \<open>
  Claim C6. The sizes 20, 30, 40, 50, 75, 100, 150, 200 are tried in this order, each with
  \<open>min_samples = max(5, min_cluster_size // 2)\<close> and with the cluster count of the
  clustering fitted for it. The search returns the result of the first size whose cluster
  count \<open>n\<close> satisfies \<open>lo \<le> n \<le> hi\<close> for the target range \<open>(lo, hi)\<close>; the sizes after
  it are not evaluated. When every size has been evaluated and none lies in the range,
  it returns the result of the first size whose distance \<open>|n - (lo + hi) / 2|\<close> to the
  midpoint is least: strictly less than for the sizes before it, at most that of the
  sizes after it.
\<close>

theorem optimize_clustering_parameters_search:
  assumes "reduce_dimensions reducer loaded = Inr base"
  shows "(\<forall>pre s post. [20, 30, 40, 50, 75, 100, 150, 200] = pre @ s # post
            \<and> (\<forall>p\<in>set pre. evaluate_setting fit base p = Inr (r p)
                  \<and> \<not> (lo \<le> res_n_clusters (r p) \<and> res_n_clusters (r p) \<le> hi))
            \<and> evaluate_setting fit base s = Inr (r s)
            \<and> lo \<le> res_n_clusters (r s) \<and> res_n_clusters (r s) \<le> hi
          \<longrightarrow> optimize_clustering_parameters reducer fit loaded (lo, hi) = Inr (r s))
    \<and> ((\<forall>p\<in>set [20, 30, 40, 50, 75, 100, 150, 200].
            evaluate_setting fit base p = Inr (r p)
            \<and> \<not> (lo \<le> res_n_clusters (r p) \<and> res_n_clusters (r p) \<le> hi))
          \<longrightarrow> (\<exists>pre s post. [20, 30, 40, 50, 75, 100, 150, 200] = pre @ s # post
                \<and> optimize_clustering_parameters reducer fit loaded (lo, hi) = Inr (r s)
                \<and> (\<forall>p\<in>set pre.
                      \<bar>real_of_int (res_n_clusters (r s)) - real_of_int (lo + hi) / 2\<bar>
                        < \<bar>real_of_int (res_n_clusters (r p)) - real_of_int (lo + hi) / 2\<bar>)
                \<and> (\<forall>p\<in>set post.
                      \<bar>real_of_int (res_n_clusters (r s)) - real_of_int (lo + hi) / 2\<bar>
                        \<le> \<bar>real_of_int (res_n_clusters (r p)) - real_of_int (lo + hi) / 2\<bar>)))
    \<and> (\<forall>p res. evaluate_setting fit base p = Inr res
          \<longrightarrow> min_cluster_size res = p \<and> min_samples res = max 5 (p div 2)
            \<and> (\<exists>xyn c. XY_normalized base = Some xyn \<and> fit p (max 5 (p div 2)) xyn = Inr c
                 \<and> res_n_clusters res = int (card (set (labels c) - {-1}))))"
proof (intro conjI allI impI)
  fix pre s post
  assume h: "[20, 30, 40, 50, 75, 100, 150, 200] = pre @ s # post
            \<and> (\<forall>p\<in>set pre. evaluate_setting fit base p = Inr (r p)
                  \<and> \<not> (lo \<le> res_n_clusters (r p) \<and> res_n_clusters (r p) \<le> hi))
            \<and> evaluate_setting fit base s = Inr (r s)
            \<and> lo \<le> res_n_clusters (r s) \<and> res_n_clusters (r s) \<le> hi"
  then have "sweep fit base (lo, hi) (pre @ s # post) [] = Inr (r s)"
    by (intro sweep_found) (auto simp: in_target_range_def)
  with h assms show "optimize_clustering_parameters reducer fit loaded (lo, hi) = Inr (r s)"
    by (simp add: optimize_clustering_parameters_def bind_err_def)
next
  let ?sizes = "[20, 30, 40, 50, 75, 100, 150, 200] :: int list"
  let ?d = "\<lambda>res. \<bar>real_of_int (res_n_clusters res) - real_of_int (lo + hi) / 2\<bar>"
  have md: "midpoint_distance (lo, hi) = ?d"
    by (rule ext) (simp add: midpoint_distance_def)
  assume "\<forall>p\<in>set ?sizes. evaluate_setting fit base p = Inr (r p)
            \<and> \<not> (lo \<le> res_n_clusters (r p) \<and> res_n_clusters (r p) \<le> hi)"
  then have h: "\<forall>p\<in>set ?sizes.
            evaluate_setting fit base p = Inr (r p) \<and> \<not> in_target_range (lo, hi) (r p)"
    by (simp add: in_target_range_def)
  have sw: "sweep fit base (lo, hi) ?sizes [] = min_by ?d (map r ?sizes)"
    using sweep_none [OF h, of "[]"] unfolding md by simp
  have "map r ?sizes \<noteq> []" by simp
  from min_by_first_least [OF this, of ?d]
  obtain pre' b post' where m: "min_by ?d (map r ?sizes) = Inr b"
    and d: "map r ?sizes = pre' @ b # post'"
    and lt: "\<forall>y\<in>set pre'. ?d b < ?d y"
    and le: "\<forall>y\<in>set post'. ?d b \<le> ?d y"
    by blast
  from d obtain pre s post where sz: "?sizes = pre @ s # post" and p1: "pre' = map r pre"
    and p2: "b = r s" and p3: "post' = map r post"
    unfolding map_eq_append_conv map_eq_Cons_conv by blast
  have "optimize_clustering_parameters reducer fit loaded (lo, hi) = Inr (r s)"
    using assms sw m p2 by (simp add: optimize_clustering_parameters_def bind_err_def)
  with sz lt le p1 p2 p3
  show "\<exists>pre s post. ?sizes = pre @ s # post
        \<and> optimize_clustering_parameters reducer fit loaded (lo, hi) = Inr (r s)
        \<and> (\<forall>p\<in>set pre. ?d (r s) < ?d (r p))
        \<and> (\<forall>p\<in>set post. ?d (r s) \<le> ?d (r p))"
    by (intro exI [of _ pre] exI [of _ s] exI [of _ post]) simp
next
  fix p res assume "evaluate_setting fit base p = Inr res"
  from evaluate_setting_fields [OF this]
  show "min_cluster_size res = p" "min_samples res = max 5 (p div 2)"
    "\<exists>xyn c. XY_normalized base = Some xyn \<and> fit p (max 5 (p div 2)) xyn = Inr c
       \<and> res_n_clusters res = int (card (set (labels c) - {-1}))"
    by blast+
qed


lemma ex_reduce_dimensions:
  "\<exists>base. reduce_dimensions ex_reducer ex_viz = Inr base"
  using reduce_dimensions_result [of ex_reducer ex_viz]
  by (simp add: ex_reducer_def ex_lengths)

lemma ex_evaluate_setting:
  assumes "reduce_dimensions ex_reducer ex_viz = Inr base"
  shows "evaluate_setting ex_fit_sweep base p = Inr (ex_result p)"
proof -
  from reduce_dimensions_XY_normalized [OF assms]
  obtain xyn where "XY_normalized base = Some xyn" and "len_df (df base) = 5"
    by (auto simp: ex_lengths)
  then show ?thesis
    by (simp add: evaluate_setting_def cluster_embeddings_def viz_test_of_def bind_err_def
        ex_fit_sweep_def ex_hdbscan_def assign_column_def Let_def ex_result_def
        count_clusters_def count_noise_def len_df_def)
qed

text \<open>
  For the target range (1, 3) the size 30, with three clusters, is returned although
  the size 40, with two, is closer to the midpoint 2. For the range (7, 9) no size is in
  range; the sizes 50 and 75, with five clusters, are closest to the midpoint 8, and the
  first of them is returned.
\<close>

theorem optimize_clustering_parameters_search_witness:
  "optimize_clustering_parameters ex_reducer ex_fit_sweep ex_viz (1, 3) = Inr (ex_result 30)
   \<and> res_n_clusters (ex_result 30) = 3 \<and> res_n_clusters (ex_result 40) = 2
   \<and> optimize_clustering_parameters ex_reducer ex_fit_sweep ex_viz (7, 9) = Inr (ex_result 50)
   \<and> map (\<lambda>p. res_n_clusters (ex_result p)) [20, 30, 40, 50, 75, 100, 150, 200]
       = [0, 3, 2, 5, 5, 1, 1, 1]"
proof -
  from ex_reduce_dimensions obtain base
    where base: "reduce_dimensions ex_reducer ex_viz = Inr base" by blast
  note ev = ex_evaluate_setting [OF base]
  note search = optimize_clustering_parameters_search [OF base, of ex_fit_sweep ex_result]
  have first: "optimize_clustering_parameters ex_reducer ex_fit_sweep ex_viz (1, 3)
      = Inr (ex_result 30)"
  proof -
    have "[20, 30, 40, 50, 75, 100, 150, 200] = [20] @ 30 # [40, 50, 75, 100, 150, 200 :: int]
        \<and> (\<forall>p\<in>set [20]. evaluate_setting ex_fit_sweep base p = Inr (ex_result p)
              \<and> \<not> (1 \<le> res_n_clusters (ex_result p) \<and> res_n_clusters (ex_result p) \<le> 3))
        \<and> evaluate_setting ex_fit_sweep base 30 = Inr (ex_result 30)
        \<and> 1 \<le> res_n_clusters (ex_result 30) \<and> res_n_clusters (ex_result 30) \<le> 3"
      by (simp add: ev ex_result_def)
    with search [of 1 3] show ?thesis by blast
  qed
  let ?sizes = "[20, 30, 40, 50, 75, 100, 150, 200] :: int list"
  let ?d = "\<lambda>p. \<bar>real_of_int (res_n_clusters (ex_result p)) - real_of_int (7 + 9) / 2\<bar>"
  have "\<forall>p\<in>set ?sizes. evaluate_setting ex_fit_sweep base p = Inr (ex_result p)
      \<and> \<not> (7 \<le> res_n_clusters (ex_result p) \<and> res_n_clusters (ex_result p) \<le> 9)"
    by (simp add: ev ex_result_def)
  with search [of 7 9] obtain pre s post
    where sz: "?sizes = pre @ s # post"
      and opt: "optimize_clustering_parameters ex_reducer ex_fit_sweep ex_viz (7, 9)
        = Inr (ex_result s)"
      and lt: "\<forall>p\<in>set pre. ?d s < ?d p"
      and le: "\<forall>p\<in>set post. ?d s \<le> ?d p"
    by blast
  from append_Cons_index [OF sz] have i: "length pre < 8" and pre: "pre = take (length pre) ?sizes"
    and s: "s = ?sizes ! length pre" and post: "post = drop (Suc (length pre)) ?sizes"
    by simp_all
  from i consider "length pre = 0" | "length pre = 1" | "length pre = 2" | "length pre = 3"
    | "length pre = 4" | "length pre = 5" | "length pre = 6" | "length pre = 7"
    by linarith
  then have "s = 50"
  proof cases
    case 1
    from le show ?thesis
      unfolding s [unfolded 1] post [unfolded 1] by (simp add: ex_result_def)
  next
    case 2
    from le show ?thesis
      unfolding s [unfolded 2] post [unfolded 2] by (simp add: ex_result_def)
  next
    case 3
    from le show ?thesis
      unfolding s [unfolded 3] post [unfolded 3] by (simp add: ex_result_def)
  next
    case 4
    from s [unfolded 4] show ?thesis by simp
  next
    case 5
    have "pre = [20, 30, 40, 50]" using pre [unfolded 5] by simp
    with lt show ?thesis
      unfolding s [unfolded 5] by (simp add: ex_result_def)
  next
    case 6
    have "pre = [20, 30, 40, 50, 75]" using pre [unfolded 6] by simp
    with lt show ?thesis
      unfolding s [unfolded 6] by (simp add: ex_result_def)
  next
    case 7
    have "pre = [20, 30, 40, 50, 75, 100]" using pre [unfolded 7] by simp
    with lt show ?thesis
      unfolding s [unfolded 7] by (simp add: ex_result_def)
  next
    case 8
    have "pre = [20, 30, 40, 50, 75, 100, 150]" using pre [unfolded 8] by simp
    with lt show ?thesis
      unfolding s [unfolded 8] by (simp add: ex_result_def)
  qed
  with opt first show ?thesis by (simp add: ex_result_def)
qed

section \<open>Parameter assessment\<close>

lemma param_grid_comprehension:
  "param_grid mcs_values ms_values = [(mcs, ms). mcs \<leftarrow> mcs_values, ms \<leftarrow> ms_values, ms \<le> mcs]"
proof -
  have "concat (map (\<lambda>ms. if ms \<le> mcs then [(mcs, ms)] else []) ys)
      = map (\<lambda>ms. (mcs, ms)) (filter (\<lambda>ms. ms \<le> mcs) ys)" for mcs :: int and ys
    by (induction ys) simp_all
  then show ?thesis by (simp add: param_grid_def)
qed

lemma assess_loop_rows:
  assumes "\<forall>p\<in>set grid. assess_pair fit base p = Inr (row p)"
  shows "assess_loop fit base grid acc = Inr (acc @ map row grid)"
  using assms by (induction grid arbitrary: acc) (simp_all add: bind_err_def)

text \<open>
  Claim C7. The pairs evaluated are exactly the pairs \<open>(mcs, ms)\<close> of the two search lists
  with \<open>ms \<le> mcs\<close>, in nested-loop order. When every fit succeeds, the result has one row
  per pair, in that order, also for a pair whose validity score cannot be read: its
  \<open>dbcv_score\<close> is \<open>NaN\<close>. In each row \<open>n_clusters\<close> counts the distinct labels other
  than \<open>-1\<close> and \<open>noise_ratio\<close> is the number of labels equal to \<open>-1\<close> divided by the
  number of rows of the table (a finite quotient when the table is not empty).
\<close>

theorem assess_2d_parameters_grid:
  assumes "XY_normalized base = Some xyn"
    and "\<forall>p\<in>set (param_grid mcs_values ms_values). fit (fst p) (snd p) xyn = Inr (c p)"
  shows "param_grid mcs_values ms_values =
           [(mcs, ms). mcs \<leftarrow> mcs_values, ms \<leftarrow> ms_values, ms \<le> mcs]
    \<and> assess_2d_parameters fit base mcs_values ms_values =
         Inr (map (\<lambda>p. \<lparr>a_min_cluster_size = fst p, a_min_samples = snd p,
                 a_n_clusters = int (card (set (labels (c p)) - {-1})),
                 a_noise_ratio =
                   np_divide (card {i. i < length (labels (c p)) \<and> labels (c p) ! i = -1})
                     (len_df (df base)),
                 dbcv_score = (case relative_validity (c p) of Some v \<Rightarrow> Finite v | None \<Rightarrow> NaN)\<rparr>)
               (param_grid mcs_values ms_values))
    \<and> (\<forall>k n. 0 < n \<longrightarrow> np_divide k n = Finite (real k / real n))"
proof -
  have "\<forall>p\<in>set (param_grid mcs_values ms_values). assess_pair fit base p =
      Inr \<lparr>a_min_cluster_size = fst p, a_min_samples = snd p,
                 a_n_clusters = int (card (set (labels (c p)) - {-1})),
                 a_noise_ratio =
                   np_divide (card {i. i < length (labels (c p)) \<and> labels (c p) ! i = -1})
                     (len_df (df base)),
                 dbcv_score = (case relative_validity (c p) of Some v \<Rightarrow> Finite v | None \<Rightarrow> NaN)\<rparr>"
    using assms
    by (simp add: assess_pair_def bind_err_def count_clusters_card count_noise_card)
  from assess_loop_rows [OF this, of "[]"] show ?thesis
    by (simp add: assess_2d_parameters_def param_grid_comprehension np_divide_def)
qed

theorem assess_2d_parameters_grid_witness:
  "assess_2d_parameters ex_fit_mst ex_viz [2, 3] [1, 3, 5] =
     Inr [\<lparr>a_min_cluster_size = 2, a_min_samples = 1, a_n_clusters = 2,
           a_noise_ratio = Finite (1 / 5), dbcv_score = Finite (1 / 2)\<rparr>,
          \<lparr>a_min_cluster_size = 3, a_min_samples = 1, a_n_clusters = 2,
           a_noise_ratio = Finite (1 / 5), dbcv_score = Finite (1 / 2)\<rparr>,
          \<lparr>a_min_cluster_size = 3, a_min_samples = 3, a_n_clusters = 2,
           a_noise_ratio = Finite (1 / 5), dbcv_score = NaN\<rparr>]"
proof -
  have xyn: "XY_normalized ex_viz = Some [[0, 0], [0, 1], [1, 0], [3, 3], [9, 9]]"
    by (simp add: ex_viz_def)
  have grid: "param_grid [2, 3] [1, 3, 5] = [(2, 1), (3, 1), (3, 3)]"
    by (simp add: param_grid_def)
  have fits: "\<forall>p\<in>set (param_grid [2, 3] [1, 3, 5]).
      ex_fit_mst (fst p) (snd p) [[0, 0], [0, 1], [1, 0], [3, 3], [9, 9]]
        = Inr (ex_hdbscan\<lparr>relative_validity := (if snd p = 3 then None else Some (1 / 2))\<rparr>)"
    by (simp add: ex_fit_mst_def)
  have n: "int (card (set [0, 0, 0, 1, -1 :: int] - {-1})) = 2"
    unfolding count_clusters_card [symmetric] by (simp add: count_clusters_def)
  have k: "card {i. i < length [0, 0, 0, 1, -1 :: int] \<and> [0, 0, 0, 1, -1 :: int] ! i = -1} = 1"
    unfolding count_noise_card [symmetric] by (simp add: count_noise_def)
  from assess_2d_parameters_grid [of ex_viz _ "[2, 3]" "[1, 3, 5]" ex_fit_mst, OF xyn fits]
  show ?thesis
    unfolding grid by (simp add: ex_hdbscan_def n k [simplified] ex_lengths np_divide_def)
qed

section \<open>Cluster descriptors\<close>

lemma counter_add_keys: "fst ` set (counter_add d w) = insert w (fst ` set d)"
  by (induction d w rule: counter_add.induct) auto

lemma counter_add_distinct: "distinct (map fst d) \<Longrightarrow> distinct (map fst (counter_add d w))"
proof (induction d w rule: counter_add.induct)
  case (1 w)
  then show ?case by simp
next
  case (2 k n d w)
  then show ?case
    using counter_add_keys [of d w] by auto
qed

lemma counter_add_map_of:
  "map_of (counter_add d w) k =
     (if k = w then Some (case map_of d w of None \<Rightarrow> 1 | Some n \<Rightarrow> n + 1) else map_of d k)"
  by (induction d w rule: counter_add.induct) auto

lemma fold_counter_keys:
  "fst ` set (fold (\<lambda>w d. counter_add d w) ws d) = fst ` set d \<union> set ws"
  by (induction ws arbitrary: d) (simp_all add: counter_add_keys)

lemma fold_counter_distinct:
  "distinct (map fst d) \<Longrightarrow> distinct (map fst (fold (\<lambda>w d. counter_add d w) ws d))"
  by (induction ws arbitrary: d) (simp_all add: counter_add_distinct)

lemma fold_counter_map_of:
  "map_of (fold (\<lambda>w d. counter_add d w) ws d) k =
     (case map_of d k of
        None \<Rightarrow> if k \<in> set ws then Some (count_list ws k) else None
      | Some n \<Rightarrow> Some (n + count_list ws k))"
proof (induction ws arbitrary: d)
  case Nil
  then show ?case by (simp split: option.splits)
next
  case (Cons w ws)
  have step: "fold (\<lambda>w d. counter_add d w) (w # ws) d
      = fold (\<lambda>w d. counter_add d w) ws (counter_add d w)"
    by simp
  show ?case
    unfolding step Cons.IH counter_add_map_of
    by (cases "k = w") (simp_all split: option.splits)
qed

lemma Counter_props:
  "distinct (map fst (Counter ws))"
  "set (map fst (Counter ws)) = set ws"
  "item \<in> set (Counter ws) \<Longrightarrow> snd item = count_list ws (fst item)"
proof -
  show a: "distinct (map fst (Counter ws))"
    unfolding Counter_def by (rule fold_counter_distinct) simp
  show "set (map fst (Counter ws)) = set ws"
    unfolding Counter_def using fold_counter_keys [of ws "[]"] by simp
  assume "item \<in> set (Counter ws)"
  then have "(fst item, snd item) \<in> set (Counter ws)" by simp
  with a have "map_of (Counter ws) (fst item) = Some (snd item)"
    by (rule map_of_is_SomeI)
  then show "snd item = count_list ws (fst item)"
    unfolding Counter_def fold_counter_map_of by (simp split: if_splits)
qed

lemma take_drop_sorted_wrt:
  assumes "sorted_wrt R xs"
  shows "\<forall>a\<in>set (take n xs). \<forall>b\<in>set (drop n xs). R a b"
proof -
  have "sorted_wrt R (take n xs @ drop n xs)" using assms by simp
  then show ?thesis unfolding sorted_wrt_append by blast
qed

lemma most_common_props:
  fixes ws :: "ustring list" and n :: int
  defines "kws \<equiv> map fst (most_common n (Counter ws))"
  shows "distinct kws" "set kws \<subseteq> set ws"
    "length kws = min (nat n) (card (set ws))"
    "sorted_wrt (\<lambda>a b. count_list ws b \<le> count_list ws a) kws"
    "\<forall>k\<in>set kws. \<forall>w\<in>set ws - set kws. count_list ws w \<le> count_list ws k"
proof -
  define items where "items = sort_key (\<lambda>item. - int (snd item)) (Counter ws)"
  have kws: "kws = take (nat n) (map fst items)"
    by (simp add: kws_def most_common_def items_def take_map)
  have ms: "mset items = mset (Counter ws)" by (simp add: items_def)
  then have st: "set items = set (Counter ws)" by (metis set_mset_mset)
  have "mset (map fst items) = mset (map fst (Counter ws))"
    using ms by (metis mset_map)
  then have dk: "distinct (map fst items)" and sk: "set (map fst items) = set ws"
    using Counter_props(1,2) [of ws] by (metis mset_eq_imp_distinct_iff, metis set_mset_mset)
  show "distinct kws" unfolding kws using dk by simp
  show "set kws \<subseteq> set ws" unfolding kws using sk set_take_subset [of "nat n" "map fst items"] by blast
  have "length items = card (set ws)"
    using dk sk by (metis distinct_card length_map)
  then show "length kws = min (nat n) (card (set ws))"
    unfolding kws by (simp add: min.commute)
  have cnt: "snd item = count_list ws (fst item)" if "item \<in> set items" for item
    using that st Counter_props(3) by blast
  have "sorted (map (\<lambda>item. - int (snd item)) items)"
    by (simp add: items_def)
  then have "sorted_wrt (\<lambda>a b. snd b \<le> snd a) items"
    by (simp add: sorted_map)
  then have "sorted_wrt (\<lambda>a b. count_list ws (fst b) \<le> count_list ws (fst a)) items"
    by (rule sorted_wrt_mono_rel [rotated]) (simp add: cnt)
  then have srt: "sorted_wrt (\<lambda>a b. count_list ws b \<le> count_list ws a) (map fst items)"
    by (simp add: sorted_wrt_map)
  then show "sorted_wrt (\<lambda>a b. count_list ws b \<le> count_list ws a) kws"
    unfolding kws by (rule sorted_wrt_take)
  show "\<forall>k\<in>set kws. \<forall>w\<in>set ws - set kws. count_list ws w \<le> count_list ws k"
  proof (intro ballI)
    fix k w assume k: "k \<in> set kws" and w: "w \<in> set ws - set kws"
    have "set (map fst items) = set (take (nat n) (map fst items)) \<union> set (drop (nat n) (map fst items))"
      by (metis append_take_drop_id set_append)
    with w sk have "w \<in> set (drop (nat n) (map fst items))"
      unfolding kws by blast
    with take_drop_sorted_wrt [OF srt, of "nat n"] k
    show "count_list ws w \<le> count_list ws k" unfolding kws by blast
  qed
qed


lemma cluster_rows_set: "set (cluster_rows cl cid) = {i. i < length cl \<and> cl ! i = cid}"
  by (auto simp: cluster_rows_def)

lemma cluster_rows_distinct: "distinct (cluster_rows cl cid)"
  by (simp add: cluster_rows_def)

lemma cluster_rows_length: "length (cluster_rows cl cid) = card {i. i < length cl \<and> cl ! i = cid}"
  using distinct_card [OF cluster_rows_distinct, of cl cid] by (simp add: cluster_rows_set)

lemma argsort_rows:
  fixes rows :: "nat list" and pr :: "real list"
  assumes "descending_argsort sorter"
  defines "ordered \<equiv> map (\<lambda>k. rows ! k) (sorter (map (\<lambda>i. pr ! i) rows))"
  shows "mset ordered = mset rows"
    and "sorted_wrt (\<lambda>a b. pr ! b \<le> pr ! a) ordered"
proof -
  let ?ps = "map (\<lambda>i. pr ! i) rows"
  from assms(1) have perm: "mset (sorter ?ps) = mset [0..<length rows]"
    and srt: "sorted_wrt (\<lambda>a b. ?ps ! b \<le> ?ps ! a) (sorter ?ps)"
    unfolding descending_argsort_def by (metis length_map)+
  have "mset ordered = image_mset (\<lambda>k. rows ! k) (mset (sorter ?ps))"
    by (simp add: ordered_def)
  also have "\<dots> = mset (map (\<lambda>k. rows ! k) [0..<length rows])"
    unfolding perm by simp
  also have "\<dots> = mset rows"
    by (simp add: map_nth)
  finally show "mset ordered = mset rows" .
  have inb: "\<forall>k\<in>set (sorter ?ps). k < length rows"
    using perm by (metis atLeastLessThan_iff set_mset_mset set_upt)
  have "sorted_wrt (\<lambda>a b. pr ! (rows ! b) \<le> pr ! (rows ! a)) (sorter ?ps)"
    using srt by (rule sorted_wrt_mono_rel [rotated]) (use inb in simp)
  then show "sorted_wrt (\<lambda>a b. pr ! b \<le> pr ! a) ordered"
    by (simp add: ordered_def sorted_wrt_map)
qed

lemma sample_rows_top:
  assumes "descending_argsort sorter"
  shows "top_samples tbl cl pr cid (sample_rows_of sorter tbl cl pr cid)"
proof -
  define rows where "rows = cluster_rows cl cid"
  define ordered where "ordered = map (\<lambda>k. rows ! k) (sorter (map (\<lambda>i. pr ! i) rows))"
  define S where "S = sample_rows_of sorter tbl cl pr cid"
  have idx: "map row_index S = take 5 ordered"
    by (simp add: S_def sample_rows_of_def Let_def rows_def ordered_def comp_def)
  have prob: "map row_probability S = map (\<lambda>i. pr ! i) (take 5 ordered)"
    by (simp add: S_def sample_rows_of_def Let_def rows_def ordered_def comp_def)
  from argsort_rows [OF assms, where rows = rows and pr = pr]
  have ms: "mset ordered = mset rows" and srt: "sorted_wrt (\<lambda>a b. pr ! b \<le> pr ! a) ordered"
    unfolding ordered_def by simp_all
  have so: "set ordered = {i. i < length cl \<and> cl ! i = cid}"
    using ms cluster_rows_set [of cl cid] unfolding rows_def by (metis set_mset_mset)
  have dist: "distinct ordered"
    using ms cluster_rows_distinct [of cl cid] unfolding rows_def
    by (metis mset_eq_imp_distinct_iff)
  have len: "length ordered = card {i. i < length cl \<and> cl ! i = cid}"
    using ms cluster_rows_length [of cl cid] unfolding rows_def by (metis size_mset)
  have fields: "\<forall>s\<in>set S. row_cluster s = cl ! row_index s
      \<and> row_text s = col_text tbl ! row_index s
      \<and> row_source_file s = col_source_file tbl ! row_index s
      \<and> row_probability s = pr ! row_index s"
    by (auto simp: S_def sample_rows_of_def Let_def)
  have mem: "\<forall>s\<in>set S. row_index s \<in> set (take 5 ordered)"
    using idx by (metis image_eqI list.set_map)
  have mem': "\<forall>s\<in>set S. row_index s < length cl \<and> cl ! row_index s = cid"
    using mem so set_take_subset [of 5 ordered] by blast
  have c1: "length S = min 5 (card {i. i < length cl \<and> cl ! i = cid})"
    using arg_cong [OF idx, of length] len by (simp add: min.commute)
  have c2: "distinct (map row_index S)"
    unfolding idx using dist by simp
  have c4: "sorted_wrt (\<lambda>a b. row_probability b \<le> row_probability a) S"
  proof -
    have "sorted_wrt (\<lambda>a b. pr ! b \<le> pr ! a) (take 5 ordered)"
      using srt by (rule sorted_wrt_take)
    then have "sorted_wrt (\<lambda>a b. b \<le> a) (map (\<lambda>i. pr ! i) (take 5 ordered))"
      by (simp add: sorted_wrt_map)
    then have "sorted_wrt (\<lambda>a b. b \<le> a) (map row_probability S)"
      unfolding prob .
    then show ?thesis by (simp add: sorted_wrt_map)
  qed
  have c5: "\<forall>i. i < length cl \<and> cl ! i = cid \<and> i \<notin> row_index ` set S
      \<longrightarrow> (\<forall>s\<in>set S. pr ! i \<le> row_probability s)"
  proof (intro allI impI ballI)
    fix i s assume i: "i < length cl \<and> cl ! i = cid \<and> i \<notin> row_index ` set S" and s: "s \<in> set S"
    have "set (map row_index S) = set (take 5 ordered)" using idx by simp
    with i have "i \<notin> set (take 5 ordered)" by simp
    moreover have "i \<in> set ordered" using i so by simp
    moreover have "set ordered = set (take 5 ordered) \<union> set (drop 5 ordered)"
      by (metis append_take_drop_id set_append)
    ultimately have "i \<in> set (drop 5 ordered)" by blast
    with take_drop_sorted_wrt [OF srt, of 5] mem s
    have "pr ! i \<le> pr ! row_index s" by blast
    with fields s show "pr ! i \<le> row_probability s" by simp
  qed
  from c1 c2 c4 c5 fields mem' show ?thesis
    unfolding top_samples_def S_def [symmetric] by simp
qed

lemma describe_cluster_props:
  fixes tbl :: frame and cl :: "int list" and pr :: "real list" and cid n_terms :: int
    and words_of :: "ustring \<Rightarrow> ustring list"
  assumes "descending_argsort sorter"
  defines "d \<equiv> describe_cluster sorter words_of n_terms tbl cl pr cid"
  shows "d_size d = card {i. i < length cl \<and> cl ! i = cid}"
    and "most_frequent (nat n_terms) (cluster_words words_of tbl cl cid) (d_keywords d)"
    and "top_samples tbl cl pr cid (d_sample_rows d)"
proof -
  show "d_size d = card {i. i < length cl \<and> cl ! i = cid}"
    by (simp add: d_def describe_cluster_def Let_def cluster_rows_length)
  show "most_frequent (nat n_terms) (cluster_words words_of tbl cl cid) (d_keywords d)"
    unfolding most_frequent_def d_def describe_cluster_def Let_def
    using most_common_props [where ws = "cluster_words words_of tbl cl cid" and n = n_terms] by simp
  show "top_samples tbl cl pr cid (d_sample_rows d)"
    using sample_rows_top [OF assms(1), of tbl cl pr cid]
    by (simp add: d_def describe_cluster_def Let_def)
qed

lemma extract_with_result:
  assumes "col_cluster (df viz) = Some cl" and "col_probability (df viz) = Some pr"
  shows "extract_with sorter words_of n_terms viz =
     Inr (viz\<lparr>cluster_descriptions :=
            Some (map (\<lambda>cid. (cid, describe_cluster sorter words_of n_terms (df viz) cl pr cid))
                   (filter (\<lambda>cid. cid \<noteq> -1) (sort (remdups cl))))\<rparr>)"
  using assms by (simp add: extract_with_def Let_def)


lemma ex_sorter_descending: "descending_argsort ex_sorter"
  unfolding descending_argsort_def ex_sorter_def
proof (intro allI conjI)
  fix ps :: "real list"
  show "mset (sort_key (\<lambda>k. - ps ! k) [0..<length ps]) = mset [0..<length ps]"
    by simp
  have "sorted (map (\<lambda>k. - ps ! k) (sort_key (\<lambda>k. - ps ! k) [0..<length ps]))"
    by simp
  then show "sorted_wrt (\<lambda>a b. ps ! b \<le> ps ! a) (sort_key (\<lambda>k. - ps ! k) [0..<length ps])"
    by (simp add: sorted_map)
qed

text \<open>
  Claim C4, as amended. With the cluster and probability columns in place, and whatever
  the external ordering does with equal probabilities, \<open>extract_cluster_keywords\<close>
  returns one descriptor for every cluster id of the table other than \<open>-1\<close> and none for
  \<open>-1\<close>. In each, \<open>size\<close> is the number of rows of the cluster; \<open>keywords\<close> are the
  \<open>n_terms\<close> most frequent words of the texts of the cluster's rows, most frequent
  first; \<open>sample_rows\<close> are up to five rows of the cluster with the highest
  probabilities, in descending order. The words of a text are obtained as follows: the
  text is lowercased (below 128, \<open>A\<close> to \<open>Z\<close> move up by 32); every character that is
  neither alphanumeric, nor the underscore, nor whitespace, nor in the range U+4E00 to
  U+9FA5 becomes a space; the result is cut into its maximal runs of non-whitespace
  characters (it is these runs, each after a separator of whitespace that is empty only
  before the first run, followed by a last stretch of whitespace); the runs longer than
  \<open>min_word_length\<close> are kept and, in the predicate script, only those not made of
  digits alone.
\<close>

theorem extract_cluster_keywords_descriptors:
  assumes "descending_argsort sorter"
    and "col_cluster (df viz) = Some cl" and "col_probability (df viz) = Some pr"
    and "length cl = len_df (df viz)" and "length pr = len_df (df viz)"
  shows "(\<exists>ds. extract_cluster_keywords ucd sorter viz n_terms m
              = Inr (viz\<lparr>cluster_descriptions := Some ds\<rparr>)
            \<and> distinct (map fst ds) \<and> fst ` set ds = set cl - {-1}
            \<and> (\<forall>(cid, d)\<in>set ds.
                  d_size d = card {i. i < length cl \<and> cl ! i = cid}
                  \<and> most_frequent (nat n_terms)
                        (concat (map (\<lambda>i. text_words ucd m (col_text (df viz) ! i))
                                   (filter (\<lambda>i. cl ! i = cid) [0..<length cl])))
                        (d_keywords d)
                  \<and> top_samples (df viz) cl pr cid (d_sample_rows d)))
     \<and> (\<exists>ds. extract_cluster_keywords_predicate ucd sorter viz n_terms m
              = Inr (viz\<lparr>cluster_descriptions := Some ds\<rparr>)
            \<and> distinct (map fst ds) \<and> fst ` set ds = set cl - {-1}
            \<and> (\<forall>(cid, d)\<in>set ds.
                  d_size d = card {i. i < length cl \<and> cl ! i = cid}
                  \<and> most_frequent (nat n_terms)
                        (concat (map (\<lambda>i. text_words_predicate ucd m (col_text (df viz) ! i))
                                   (filter (\<lambda>i. cl ! i = cid) [0..<length cl])))
                        (d_keywords d)
                  \<and> top_samples (df viz) cl pr cid (d_sample_rows d)))
     \<and> (let space = (\<lambda>c. if c < 128 then (9 \<le> c \<and> c \<le> 13) \<or> (28 \<le> c \<and> c \<le> 32)
                           else uc_space ucd c);
              alnum = (\<lambda>c. if c < 128
                           then (48 \<le> c \<and> c \<le> 57) \<or> (65 \<le> c \<and> c \<le> 90) \<or> (97 \<le> c \<and> c \<le> 122)
                           else uc_alnum ucd c);
              digit = (\<lambda>c. if c < 128 then 48 \<le> c \<and> c \<le> 57 else uc_digit ucd c)
          in \<forall>t. \<exists>segs tail.
               text_words ucd m t = filter (\<lambda>w. m < int (length w)) (map snd segs)
             \<and> text_words_predicate ucd m t
                 = filter (\<lambda>w. m < int (length w) \<and> \<not> (w \<noteq> [] \<and> (\<forall>c\<in>set w. digit c)))
                     (map snd segs)
             \<and> concat (map (\<lambda>(sep, w). sep @ w) segs) @ tail
                 = map (\<lambda>c. if alnum c \<or> c = 95 \<or> space c \<or> (19968 \<le> c \<and> c \<le> 40869)
                             then c else 32)
                     (concat (map (\<lambda>i. if t ! i < 128
                                        then [if 65 \<le> t ! i \<and> t ! i \<le> 90 then t ! i + 32
                                              else t ! i]
                                        else uc_lower ucd t i) [0..<length t]))
             \<and> (\<forall>(sep, w)\<in>set segs.
                    (\<forall>c\<in>set sep. space c) \<and> w \<noteq> [] \<and> (\<forall>c\<in>set w. \<not> space c))
             \<and> (\<forall>c\<in>set tail. space c)
             \<and> (\<forall>(sep, w)\<in>set (tl segs). sep \<noteq> []))"
proof -
  have gen: "\<exists>ds. extract_with sorter words_of n_terms viz
              = Inr (viz\<lparr>cluster_descriptions := Some ds\<rparr>)
            \<and> distinct (map fst ds) \<and> fst ` set ds = set cl - {-1}
            \<and> (\<forall>(cid, d)\<in>set ds.
                  d_size d = card {i. i < length cl \<and> cl ! i = cid}
                  \<and> most_frequent (nat n_terms)
                        (concat (map (\<lambda>i. words_of (col_text (df viz) ! i))
                                   (filter (\<lambda>i. cl ! i = cid) [0..<length cl])))
                        (d_keywords d)
                  \<and> top_samples (df viz) cl pr cid (d_sample_rows d))" for words_of
  proof -
    define ids where "ids = filter (\<lambda>cid. cid \<noteq> -1) (sort (remdups cl))"
    define ds where
      "ds = map (\<lambda>cid. (cid, describe_cluster sorter words_of n_terms (df viz) cl pr cid)) ids"
    have r: "extract_with sorter words_of n_terms viz = Inr (viz\<lparr>cluster_descriptions := Some ds\<rparr>)"
      unfolding ds_def ids_def using assms(2,3) by (rule extract_with_result)
    have keys: "map fst ds = ids" by (simp add: ds_def comp_def)
    have d: "distinct (map fst ds)" unfolding keys ids_def by simp
    have s: "fst ` set ds = set cl - {-1}"
      using arg_cong [OF keys, of set] by (auto simp: ids_def)
    have "\<forall>(cid, d)\<in>set ds.
                  d_size d = card {i. i < length cl \<and> cl ! i = cid}
                  \<and> most_frequent (nat n_terms) (cluster_words words_of (df viz) cl cid)
                        (d_keywords d)
                  \<and> top_samples (df viz) cl pr cid (d_sample_rows d)"
      using describe_cluster_props [OF assms(1)] by (auto simp: ds_def)
    then have "\<forall>(cid, d)\<in>set ds.
                  d_size d = card {i. i < length cl \<and> cl ! i = cid}
                  \<and> most_frequent (nat n_terms)
                        (concat (map (\<lambda>i. words_of (col_text (df viz) ! i))
                                   (filter (\<lambda>i. cl ! i = cid) [0..<length cl])))
                        (d_keywords d)
                  \<and> top_samples (df viz) cl pr cid (d_sample_rows d)"
      unfolding cluster_words_def cluster_rows_def .
    with r d s show ?thesis by blast
  qed
  define space where "space = (\<lambda>c. if c < 128 then (9 \<le> c \<and> c \<le> 13) \<or> (28 \<le> c \<and> c \<le> 32)
                           else uc_space ucd c)"
  define alnum where "alnum = (\<lambda>c. if c < 128
                           then (48 \<le> c \<and> c \<le> 57) \<or> (65 \<le> c \<and> c \<le> 90) \<or> (97 \<le> c \<and> c \<le> 122)
                           else uc_alnum ucd c)"
  define digit where "digit = (\<lambda>c. if c < 128 then 48 \<le> c \<and> c \<le> 57 else uc_digit ucd c)"
  have sp: "is_space ucd = space"
    by (rule ext) (simp add: is_space_def space_def)
  have dg: "isdigit ucd = (\<lambda>w. w \<noteq> [] \<and> (\<forall>c\<in>set w. digit c))"
    by (rule ext) (simp add: isdigit_def is_digit_def digit_def)
  have keep: "(\<lambda>c. if is_word ucd c \<or> is_space ucd c \<or> (19968 \<le> c \<and> c \<le> 40869) then c else 32)
      = (\<lambda>c. if alnum c \<or> c = 95 \<or> space c \<or> (19968 \<le> c \<and> c \<le> 40869) then c else 32)"
    by (rule ext) (auto simp: is_word_def is_space_def alnum_def space_def)
  have low: "lower ucd t = concat (map (\<lambda>i. if t ! i < 128
                                        then [if 65 \<le> t ! i \<and> t ! i \<le> 90 then t ! i + 32
                                              else t ! i]
                                        else uc_lower ucd t i) [0..<length t])" for t
  proof -
    have "lower_at ucd t = (\<lambda>i. if t ! i < 128
                                        then [if 65 \<le> t ! i \<and> t ! i \<le> 90 then t ! i + 32
                                              else t ! i]
                                        else uc_lower ucd t i)"
      by (rule ext) (simp add: lower_at_def Let_def)
    then show ?thesis unfolding lower_def by simp
  qed
  have words: "\<exists>segs tail.
               text_words ucd m t = filter (\<lambda>w. m < int (length w)) (map snd segs)
             \<and> text_words_predicate ucd m t
                 = filter (\<lambda>w. m < int (length w) \<and> \<not> (w \<noteq> [] \<and> (\<forall>c\<in>set w. digit c)))
                     (map snd segs)
             \<and> concat (map (\<lambda>(sep, w). sep @ w) segs) @ tail
                 = map (\<lambda>c. if alnum c \<or> c = 95 \<or> space c \<or> (19968 \<le> c \<and> c \<le> 40869)
                             then c else 32)
                     (concat (map (\<lambda>i. if t ! i < 128
                                        then [if 65 \<le> t ! i \<and> t ! i \<le> 90 then t ! i + 32
                                              else t ! i]
                                        else uc_lower ucd t i) [0..<length t]))
             \<and> (\<forall>(sep, w)\<in>set segs.
                    (\<forall>c\<in>set sep. space c) \<and> w \<noteq> [] \<and> (\<forall>c\<in>set w. \<not> space c))
             \<and> (\<forall>c\<in>set tail. space c)
             \<and> (\<forall>(sep, w)\<in>set (tl segs). sep \<noteq> [])" for t
  proof -
    from split_ws_runs [of ucd "clean_text ucd t"] obtain segs tail where
      a: "split_ws ucd (clean_text ucd t) = map snd segs"
      and b: "clean_text ucd t = concat (map (\<lambda>(sep, w). sep @ w) segs) @ tail"
      and c: "\<forall>(sep, w)\<in>set segs. (\<forall>c\<in>set sep. space c) \<and> w \<noteq> []
            \<and> (\<forall>c\<in>set w. \<not> space c)"
      and d: "\<forall>c\<in>set tail. space c"
      and e: "\<forall>(sep, w)\<in>set (tl segs). sep \<noteq> []"
      unfolding sp by blast
    have b': "concat (map (\<lambda>(sep, w). sep @ w) segs) @ tail
        = map (\<lambda>c. if alnum c \<or> c = 95 \<or> space c \<or> (19968 \<le> c \<and> c \<le> 40869) then c else 32)
            (concat (map (\<lambda>i. if t ! i < 128
                                        then [if 65 \<le> t ! i \<and> t ! i \<le> 90 then t ! i + 32
                                              else t ! i]
                                        else uc_lower ucd t i) [0..<length t]))"
      unfolding b [symmetric] clean_text_def keep low ..
    have w1: "text_words ucd m t = filter (\<lambda>w. m < int (length w)) (map snd segs)"
      unfolding text_words_def a ..
    have w2: "text_words_predicate ucd m t
        = filter (\<lambda>w. m < int (length w) \<and> \<not> (w \<noteq> [] \<and> (\<forall>c\<in>set w. digit c))) (map snd segs)"
      unfolding text_words_predicate_def a dg ..
    from w1 w2 b' c d e show ?thesis by blast
  qed
  from words have "\<forall>t. \<exists>segs tail.
               text_words ucd m t = filter (\<lambda>w. m < int (length w)) (map snd segs)
             \<and> text_words_predicate ucd m t
                 = filter (\<lambda>w. m < int (length w) \<and> \<not> (w \<noteq> [] \<and> (\<forall>c\<in>set w. digit c)))
                     (map snd segs)
             \<and> concat (map (\<lambda>(sep, w). sep @ w) segs) @ tail
                 = map (\<lambda>c. if alnum c \<or> c = 95 \<or> space c \<or> (19968 \<le> c \<and> c \<le> 40869)
                             then c else 32)
                     (concat (map (\<lambda>i. if t ! i < 128
                                        then [if 65 \<le> t ! i \<and> t ! i \<le> 90 then t ! i + 32
                                              else t ! i]
                                        else uc_lower ucd t i) [0..<length t]))
             \<and> (\<forall>(sep, w)\<in>set segs.
                    (\<forall>c\<in>set sep. space c) \<and> w \<noteq> [] \<and> (\<forall>c\<in>set w. \<not> space c))
             \<and> (\<forall>c\<in>set tail. space c)
             \<and> (\<forall>(sep, w)\<in>set (tl segs). sep \<noteq> [])"
    by blast
  then have third: "(let space = (\<lambda>c. if c < 128 then (9 \<le> c \<and> c \<le> 13) \<or> (28 \<le> c \<and> c \<le> 32)
                           else uc_space ucd c);
              alnum = (\<lambda>c. if c < 128
                           then (48 \<le> c \<and> c \<le> 57) \<or> (65 \<le> c \<and> c \<le> 90) \<or> (97 \<le> c \<and> c \<le> 122)
                           else uc_alnum ucd c);
              digit = (\<lambda>c. if c < 128 then 48 \<le> c \<and> c \<le> 57 else uc_digit ucd c)
          in \<forall>t. \<exists>segs tail.
               text_words ucd m t = filter (\<lambda>w. m < int (length w)) (map snd segs)
             \<and> text_words_predicate ucd m t
                 = filter (\<lambda>w. m < int (length w) \<and> \<not> (w \<noteq> [] \<and> (\<forall>c\<in>set w. digit c)))
                     (map snd segs)
             \<and> concat (map (\<lambda>(sep, w). sep @ w) segs) @ tail
                 = map (\<lambda>c. if alnum c \<or> c = 95 \<or> space c \<or> (19968 \<le> c \<and> c \<le> 40869)
                             then c else 32)
                     (concat (map (\<lambda>i. if t ! i < 128
                                        then [if 65 \<le> t ! i \<and> t ! i \<le> 90 then t ! i + 32
                                              else t ! i]
                                        else uc_lower ucd t i) [0..<length t]))
             \<and> (\<forall>(sep, w)\<in>set segs.
                    (\<forall>c\<in>set sep. space c) \<and> w \<noteq> [] \<and> (\<forall>c\<in>set w. \<not> space c))
             \<and> (\<forall>c\<in>set tail. space c)
             \<and> (\<forall>(sep, w)\<in>set (tl segs). sep \<noteq> []))"
    unfolding Let_def space_def alnum_def digit_def .
  from gen [of "text_words ucd m"] gen [of "text_words_predicate ucd m"] third
  show ?thesis
    unfolding extract_cluster_keywords_def extract_cluster_keywords_predicate_def
    by (intro conjI)
qed


lemma ex_text_words:
  "text_words ucd 2 (ustr ''The war began.'') = [ustr ''the'', ustr ''war'', ustr ''began'']"
  "text_words ucd 2 (ustr ''War and peace'') = [ustr ''war'', ustr ''and'', ustr ''peace'']"
  "text_words ucd 2 (ustr ''a war of words'') = [ustr ''war'', ustr ''words'']"
  "text_words ucd 2 (ustr ''Treaty of 1919, 1919'') = [ustr ''treaty'', ustr ''1919'', ustr ''1919'']"
  by (simp_all add: text_words_def clean_text_def split_ws_def lower_ascii ustr_def
      is_word_def is_space_def)

lemma ex_cluster_rows:
  "cluster_rows [0, 0, 0, 1, -1] 0 = [0, 1, 2]"
  "cluster_rows [0, 0, 0, 1, -1] 1 = [3]"
  by (simp_all add: cluster_rows_def upt_rec)

lemma ex_cluster_words:
  "cluster_words (text_words ucd 2) ex_df [0, 0, 0, 1, -1] 0
     = [ustr ''the'', ustr ''war'', ustr ''began'', ustr ''war'', ustr ''and'', ustr ''peace'', ustr ''war'', ustr ''words'']"
  "cluster_words (text_words ucd 2) ex_df [0, 0, 0, 1, -1] 1
     = [ustr ''treaty'', ustr ''1919'', ustr ''1919'']"
  by (simp_all add: cluster_words_def ex_cluster_rows ex_df_def ex_text_words)

lemma ex_Counter:
  "Counter [ustr ''the'', ustr ''war'', ustr ''began'', ustr ''war'', ustr ''and'',
            ustr ''peace'', ustr ''war'', ustr ''words'']
     = [(ustr ''the'', 1), (ustr ''war'', 3), (ustr ''began'', 1), (ustr ''and'', 1),
        (ustr ''peace'', 1), (ustr ''words'', 1)]"
  "Counter [ustr ''treaty'', ustr ''1919'', ustr ''1919'']
     = [(ustr ''treaty'', 1), (ustr ''1919'', 2)]"
  "Counter [ustr ''treaty''] = [(ustr ''treaty'', 1)]"
  by (simp_all add: Counter_def ustr_def)

lemma ex_most_common:
  "map fst (most_common 2 (Counter [ustr ''the'', ustr ''war'', ustr ''began'', ustr ''war'',
     ustr ''and'', ustr ''peace'', ustr ''war'', ustr ''words'']))
     = [ustr ''war'', ustr ''the'']"
  "map fst (most_common 2 (Counter [ustr ''treaty'', ustr ''1919'', ustr ''1919'']))
     = [ustr ''1919'', ustr ''treaty'']"
  unfolding ex_Counter by (simp_all add: most_common_def)

lemma ex_sorter_values:
  "ex_sorter [1, 1/2, 3/4] = [0, 2, 1]" "ex_sorter [1] = [0]"
  by (simp_all add: ex_sorter_def upt_rec)


lemma ex_clustered_columns:
  "col_cluster (df ex_clustered) = Some [0, 0, 0, 1, -1]"
  "col_probability (df ex_clustered) = Some [1, 1/2, 3/4, 1, 0]"
  "len_df (df ex_clustered) = 5"
  "df ex_clustered = ex_df\<lparr>col_cluster := Some [0, 0, 0, 1, -1],
                 col_probability := Some [1, 1/2, 3/4, 1, 0],
                 col_outlier_score := Some [0, 1/4, 1/8, 0, 9/10]\<rparr>"
  by (simp_all add: ex_clustered_def ex_df_def len_df_def)

lemma ex_cluster_ids: "filter (\<lambda>cid. cid \<noteq> -1) (sort (remdups [0, 0, 0, 1, -1 :: int])) = [0, 1]"
  by simp

lemma ex_sample_rows:
  "map row_index (sample_rows_of ex_sorter tbl [0, 0, 0, 1, -1] [1, 1/2, 3/4, 1, 0] 0) = [0, 2, 1]"
  "map row_index (sample_rows_of ex_sorter tbl [0, 0, 0, 1, -1] [1, 1/2, 3/4, 1, 0] 1) = [3]"
  by (simp_all add: sample_rows_of_def Let_def ex_cluster_rows ex_sorter_values)

lemma ex_text_words_predicate:
  "text_words_predicate ucd 2 (ustr ''The war began.'') = [ustr ''the'', ustr ''war'', ustr ''began'']"
  "text_words_predicate ucd 2 (ustr ''War and peace'') = [ustr ''war'', ustr ''and'', ustr ''peace'']"
  "text_words_predicate ucd 2 (ustr ''a war of words'') = [ustr ''war'', ustr ''words'']"
  "text_words_predicate ucd 2 (ustr ''Treaty of 1919, 1919'') = [ustr ''treaty'']"
  by (simp_all add: text_words_predicate_def clean_text_def split_ws_def isdigit_def
      lower_ascii ustr_def is_word_def is_space_def is_digit_def)

lemma ex_cluster_words_predicate:
  "cluster_words (text_words_predicate ucd 2) (df ex_clustered) [0, 0, 0, 1, -1] 0
     = [ustr ''the'', ustr ''war'', ustr ''began'', ustr ''war'', ustr ''and'', ustr ''peace'', ustr ''war'', ustr ''words'']"
  "cluster_words (text_words_predicate ucd 2) (df ex_clustered) [0, 0, 0, 1, -1] 1
     = [ustr ''treaty'']"
  by (simp_all add: cluster_words_def ex_cluster_rows ex_clustered_columns(4) ex_df_def
      ex_text_words_predicate)

lemma ex_most_common_predicate:
  "map fst (most_common 1 (Counter [ustr ''the'', ustr ''war'', ustr ''began'', ustr ''war'',
     ustr ''and'', ustr ''peace'', ustr ''war'', ustr ''words'']))
     = [ustr ''war'']"
  "map fst (most_common 1 (Counter [ustr ''treaty''])) = [ustr ''treaty'']"
  unfolding ex_Counter by (simp_all add: most_common_def)

text \<open>A text outside ASCII: \<open>Caf\<close>, U+00C9, \<open> au lait\<close>.\<close>

lemma ex_text_words_latin1:
  "text_words ex_unicode 2 (ustr ''CAF'' @ [201] @ ustr '' au lait'')
     = [ustr ''caf'' @ [233], ustr ''lait'']"
  by (simp add: text_words_def clean_text_def split_ws_def lower_def lower_at_def ustr_def
      is_word_def is_space_def ex_unicode_def upt_rec)

theorem extract_cluster_keywords_descriptors_witness:
  "descending_argsort ex_sorter
   \<and> col_cluster (df ex_clustered) = Some [0, 0, 0, 1, -1]
   \<and> (\<exists>ds. extract_cluster_keywords ex_unicode ex_sorter ex_clustered 2 2
            = Inr (ex_clustered\<lparr>cluster_descriptions := Some ds\<rparr>)
          \<and> fst ` set ds = {0, 1})
   \<and> map_sum id (\<lambda>v. map_option (map (\<lambda>(c, d). (c, d_keywords d, d_size d,
                           map row_index (d_sample_rows d)))) (cluster_descriptions v))
        (extract_cluster_keywords ex_unicode ex_sorter ex_clustered 2 2)
       = Inr (Some [(0, [ustr ''war'', ustr ''the''], 3, [0, 2, 1]),
                    (1, [ustr ''1919'', ustr ''treaty''], 1, [3])])
   \<and> text_words ex_unicode 2 (ustr ''CAF'' @ [201] @ ustr '' au lait'')
       = [ustr ''caf'' @ [233], ustr ''lait'']"
proof -
  from extract_cluster_keywords_descriptors [OF ex_sorter_descending ex_clustered_columns(1,2),
        where ucd = ex_unicode and n_terms = 2 and m = 2]
  obtain ds where "extract_cluster_keywords ex_unicode ex_sorter ex_clustered 2 2
            = Inr (ex_clustered\<lparr>cluster_descriptions := Some ds\<rparr>)"
     "fst ` set ds = set [0, 0, 0, 1, -1 :: int] - {-1}"
    unfolding ex_clustered_columns(3) by fastforce
  moreover have "set [0, 0, 0, 1, -1 :: int] - {-1} = {0, 1}" by auto
  ultimately have a: "\<exists>ds. extract_cluster_keywords ex_unicode ex_sorter ex_clustered 2 2
            = Inr (ex_clustered\<lparr>cluster_descriptions := Some ds\<rparr>) \<and> fst ` set ds = {0, 1}"
    by auto
  have cw: "cluster_words (text_words ex_unicode 2) (df ex_clustered) [0, 0, 0, 1, -1] c
      = cluster_words (text_words ex_unicode 2) ex_df [0, 0, 0, 1, -1] c" for c
    by (simp add: cluster_words_def ex_clustered_columns(4))
  have b: "map_sum id (\<lambda>v. map_option (map (\<lambda>(c, d). (c, d_keywords d, d_size d,
                           map row_index (d_sample_rows d)))) (cluster_descriptions v))
        (extract_cluster_keywords ex_unicode ex_sorter ex_clustered 2 2)
       = Inr (Some [(0, [ustr ''war'', ustr ''the''], 3, [0, 2, 1]),
                    (1, [ustr ''1919'', ustr ''treaty''], 1, [3])])"
    unfolding extract_cluster_keywords_def
      extract_with_result [OF ex_clustered_columns(1,2)] ex_cluster_ids
    by (simp add: describe_cluster_def Let_def cw ex_cluster_words ex_most_common
        ex_sample_rows ex_cluster_rows)
  from a b ex_sorter_descending ex_clustered_columns(1) ex_text_words_latin1
  show ?thesis by simp
qed

theorem extract_cluster_keywords_predicate_counterexample:
  "map_sum id (\<lambda>v. map_option (map (\<lambda>(c, d). (c, d_keywords d))) (cluster_descriptions v))
     (extract_cluster_keywords_predicate ex_unicode ex_sorter ex_clustered 1 2)
       = Inr (Some [(0, [ustr ''war'']), (1, [ustr ''treaty''])])
   \<and> col_text (df ex_clustered) ! 3 = ustr ''Treaty of 1919, 1919''
   \<and> filter (\<lambda>w. 2 < int (length w))
        (split_ws ex_unicode (clean_text ex_unicode (ustr ''Treaty of 1919, 1919'')))
       = [ustr ''treaty'', ustr ''1919'', ustr ''1919'']
   \<and> \<not> most_frequent 1 [ustr ''treaty'', ustr ''1919'', ustr ''1919''] [ustr ''treaty'']"
proof -
  have "map_sum id (\<lambda>v. map_option (map (\<lambda>(c, d). (c, d_keywords d))) (cluster_descriptions v))
     (extract_cluster_keywords_predicate ex_unicode ex_sorter ex_clustered 1 2)
       = Inr (Some [(0, [ustr ''war'']), (1, [ustr ''treaty''])])"
    unfolding extract_cluster_keywords_predicate_def
      extract_with_result [OF ex_clustered_columns(1,2)] ex_cluster_ids
    by (simp add: describe_cluster_def Let_def ex_cluster_words_predicate
        ex_most_common_predicate)
  moreover have "filter (\<lambda>w. 2 < int (length w))
        (split_ws ex_unicode (clean_text ex_unicode (ustr ''Treaty of 1919, 1919'')))
       = [ustr ''treaty'', ustr ''1919'', ustr ''1919'']"
    using ex_text_words(4) [of ex_unicode] by (simp add: text_words_def)
  moreover have "col_text (df ex_clustered) ! 3 = ustr ''Treaty of 1919, 1919''"
    by (simp add: ex_clustered_columns(4) ex_df_def)
  moreover have "\<not> most_frequent 1 [ustr ''treaty'', ustr ''1919'', ustr ''1919''] [ustr ''treaty'']"
    by (simp add: most_frequent_def ustr_def)
  ultimately show ?thesis by simp
qed

section \<open>Cluster hierarchy\<close>

lemma node_sizes_direct_Some:
  "node_sizes_direct tree node = Some s \<longleftrightarrow>
     node \<in> child ` set tree \<and> s = child_size (last (filter (\<lambda>r. child r = node) tree))"
proof (induction tree rule: rev_induct)
  case Nil
  then show ?case by (simp add: node_sizes_direct_def)
next
  case (snoc r tree)
  show ?case
  proof (cases "child r = node")
    case True
    then show ?thesis by (auto simp: node_sizes_direct_def)
  next
    case False
    with snoc show ?thesis by (auto simp: node_sizes_direct_def)
  qed
qed

lemma parent_children_Some:
  "parent_children tree node = Some cs \<longleftrightarrow>
     node \<in> parent ` set tree \<and> cs = map child (filter (\<lambda>r. parent r = node) tree)"
  by (auto simp: parent_children_def Let_def filter_empty_conv)

lemma parent_children_None:
  "parent_children tree node = None \<longleftrightarrow> node \<notin> parent ` set tree"
  by (auto simp: parent_children_def Let_def filter_empty_conv)

lemma node_size_child:
  "node_sizes_direct tree node = Some s \<Longrightarrow> node_size tree node = s"
  by (subst node_size.simps) (simp add: node_sizes_direct_Some)

lemma node_size_parent:
  "node_sizes_direct tree node = None \<Longrightarrow> parent_children tree node = Some cs \<Longrightarrow>
     node_size tree node = sum_list (map (node_size tree) cs)"
  by (subst node_size.simps) (simp add: node_sizes_direct_None parent_children_Some)

lemma node_size_other:
  "node_sizes_direct tree node = None \<Longrightarrow> parent_children tree node = None \<Longrightarrow>
     node_size tree node = 1"
  by (subst node_size.simps) (simp add: node_sizes_direct_None parent_children_None)

lemma get_node_size_refines:
  "memo_ok tree memo \<Longrightarrow>
     fst (get_node_size tree memo node) = node_size tree node
     \<and> memo_ok tree (snd (get_node_size tree memo node))"
  "memo_ok tree memo \<Longrightarrow>
     fst (sum_sizes tree memo cs) = sum_list (map (node_size tree) cs)
     \<and> memo_ok tree (snd (sum_sizes tree memo cs))"
proof (induction tree memo node and tree memo cs rule: get_node_size_sum_sizes.induct)
  case (1 tree memo node)
  show ?case
  proof (cases "memo node")
    case (Some s)
    with "1.prems" show ?thesis
      by (subst (1 2) get_node_size.simps) (simp add: memo_ok_def)
  next
    case None
    show ?thesis
    proof (cases "node_sizes_direct tree node")
      case (Some s)
      with None "1.prems" node_size_child [OF Some] show ?thesis
        by (subst (1 2) get_node_size.simps) (simp add: memo_ok_def)
    next
      case nd: None
      show ?thesis
      proof (cases "parent_children tree node")
        case pn: None
        with None nd "1.prems" node_size_other [OF nd pn] show ?thesis
          by (subst (1 2) get_node_size.simps) simp
      next
        case (Some cs)
        from "1.IH" [OF None nd Some "1.prems"] node_size_parent [OF nd Some]
        have "fst (sum_sizes tree memo cs) = node_size tree node"
          and "memo_ok tree (snd (sum_sizes tree memo cs))" by simp_all
        with None nd Some show ?thesis
          by (subst (1 2) get_node_size.simps)
             (auto simp: memo_ok_def split: prod.splits)
      qed
    qed
  qed
next
  case (2 tree memo)
  then show ?case by simp
next
  case (3 tree memo c cs)
  obtain s memo' where g: "get_node_size tree memo c = (s, memo')"
    by (cases "get_node_size tree memo c")
  from "3.IH"(1) [OF "3.prems"] g have s: "s = node_size tree c" and ok: "memo_ok tree memo'"
    by simp_all
  from "3.IH"(2) [OF g [symmetric] ok] g s show ?case
    by (auto split: prod.splits)
qed


lemma any_visible_refines:
  "memo_ok tree memo \<Longrightarrow>
     fst (any_visible tree memo cs) = (\<exists>c\<in>set cs. 1 < node_size tree c)
     \<and> memo_ok tree (snd (any_visible tree memo cs))"
proof (induction cs arbitrary: memo)
  case Nil
  then show ?case by simp
next
  case (Cons c cs)
  obtain s memo' where g: "get_node_size tree memo c = (s, memo')"
    by (cases "get_node_size tree memo c")
  from get_node_size_refines(1) [OF Cons.prems, of c] g
  have s: "s = node_size tree c" and ok: "memo_ok tree memo'" by simp_all
  from Cons.IH [OF ok] g s ok show ?case by auto
qed

lemma parent_children_children_of:
  "parent_children tree node = Some cs \<Longrightarrow> children_of tree node = cs"
  "parent_children tree node = None \<Longrightarrow> children_of tree node = []"
  by (auto simp: parent_children_def children_of_def Let_def split: if_splits)

lemma build_refines:
  "memo_ok (env_tree env) memo \<Longrightarrow> build_hierarchy depth env memo node = Some (items, memo') \<Longrightarrow>
     memo_ok (env_tree env) memo'
     \<and> map li_node items = filter (\<lambda>c. 1 < node_size (env_tree env) c) [node]
     \<and> (\<forall>x\<in>set (concat (map rendered items)). item_ok env x)"
  "memo_ok (env_tree env) memo \<Longrightarrow> build_children depth env memo cs = Some (items, memo') \<Longrightarrow>
     memo_ok (env_tree env) memo'
     \<and> map li_node items = filter (\<lambda>c. 1 < node_size (env_tree env) c) cs
     \<and> (\<forall>x\<in>set (concat (map rendered items)). item_ok env x)"
proof (induction depth env memo node and depth env memo cs arbitrary: items memo' and items memo'
    rule: build_hierarchy_build_children.induct)
  case (1 env memo node)
  then show ?case by simp
next
  case (2 depth env memo node)
  let ?tree = "env_tree env"
  obtain sz memo1 where g: "get_node_size ?tree memo node = (sz, memo1)"
    by (cases "get_node_size ?tree memo node")
  from get_node_size_refines(1) [OF "2.prems"(1), of node] g
  have sz: "sz = node_size ?tree node" and ok1: "memo_ok ?tree memo1" by simp_all
  show ?case
  proof (cases "sz \<le> 1")
    case True
    with "2.prems"(2) g sz ok1 show ?thesis by auto
  next
    case big: False
    define lam where "lam = node_lambda ?tree node"
    define link where "link = map_option (make_link (env_colors env) (env_descriptions env))
                          (final_cluster_label (env_c2n env) node)"
    show ?thesis
    proof (cases "parent_children ?tree node")
      case None
      with "2.prems"(2) g big have "items = [Li node sz lam False link []]" "memo' = memo1"
        by (auto simp: lam_def link_def Let_def)
      with sz ok1 big parent_children_children_of(2) [OF None] show ?thesis
        by (simp add: item_ok_def lam_def link_def)
    next
      case (Some cs)
      obtain v memo2 where av: "any_visible ?tree memo1 cs = (v, memo2)"
        by (cases "any_visible ?tree memo1 cs")
      from any_visible_refines [OF ok1, of cs] av
      have v: "v = (\<exists>c\<in>set cs. 1 < node_size ?tree c)" and ok2: "memo_ok ?tree memo2"
        by simp_all
      show ?thesis
      proof (cases v)
        case False
        with "2.prems"(2) g big Some av
        have "items = [Li node sz lam False link []]" "memo' = memo2"
          by (auto simp: lam_def link_def Let_def)
        moreover from False v have "filter (\<lambda>c. 1 < node_size ?tree c) cs = []"
          by (simp add: filter_empty_conv)
        ultimately show ?thesis
          using sz ok2 big parent_children_children_of(1) [OF Some]
          by (simp add: item_ok_def lam_def link_def)
      next
        case True
        with "2.prems"(2) g big Some av
        obtain ch where bc: "build_children depth env memo2 cs = Some (ch, memo')"
          and it: "items = [Li node sz lam True link ch]"
          by (auto simp: lam_def link_def Let_def split: option.splits)
        have ih: "memo_ok ?tree memo'
          \<and> map li_node ch = filter (\<lambda>c. 1 < node_size ?tree c) cs
          \<and> (\<forall>x\<in>set (concat (map rendered ch)). item_ok env x)"
          using "2.IH" [OF g [symmetric] _ _ _ Some av [symmetric] _ ok2 bc] big True
          by (simp add: lam_def link_def)
        from ih True v have "ch \<noteq> []"
          by (metis (mono_tags, lifting) filter_empty_conv list.map_disc_iff)
        with ih sz big parent_children_children_of(1) [OF Some]
        have "item_ok env (Li node sz lam True link ch)"
          by (simp add: item_ok_def lam_def link_def)
        with ih sz big it show ?thesis
          by simp
      qed
    qed
  qed
next
  case (3 depth env memo)
  then show ?case by simp
next
  case (4 depth env memo c cs)
  from "4.prems"(2) obtain i1 memo1 i2 where
    b1: "build_hierarchy depth env memo c = Some (i1, memo1)"
    and b2: "build_children depth env memo1 cs = Some (i2, memo')"
    and it: "items = i1 @ i2"
    by (auto split: option.splits)
  from "4.IH"(1) [OF "4.prems"(1) b1]
  have ok1: "memo_ok (env_tree env) memo1"
    and n1: "map li_node i1 = filter (\<lambda>c. 1 < node_size (env_tree env) c) [c]"
    and p1: "\<forall>x\<in>set (concat (map rendered i1)). item_ok env x" by simp_all
  from "4.IH"(2) [OF b1 _ ok1 b2] n1 p1 it show ?case by auto
qed


lemma fuel_enough_child:
  assumes acyc: "\<forall>r\<in>set tree. child r \<in> parent ` set tree \<longrightarrow> parent r < child r"
    and pc: "parent_children tree node = Some cs" and c: "c \<in> set cs"
    and fe: "fuel_enough tree (Suc depth) node"
  shows "fuel_enough tree depth c"
proof -
  from pc have np: "node \<in> parent ` set tree" and cs: "cs = map child (filter (\<lambda>r. parent r = node) tree)"
    by (simp_all add: parent_children_Some)
  from c cs obtain r where r: "r \<in> set tree" "parent r = node" "child r = c" by auto
  let ?P = "parent ` set tree"
  have fin: "finite {p \<in> ?P. node \<le> p}" by simp
  from fe np have m: "card {p \<in> ?P. node \<le> p} < Suc depth"
    by (simp add: fuel_enough_def)
  have "node \<in> {p \<in> ?P. node \<le> p}" using np by simp
  then have pos: "0 < card {p \<in> ?P. node \<le> p}"
    using fin by (metis card_gt_0_iff empty_iff)
  show ?thesis
  proof (cases "c \<in> ?P")
    case False
    with pos m show ?thesis by (simp add: fuel_enough_def)
  next
    case True
    with acyc r have lt: "node < c" by auto
    have "{p \<in> ?P. c \<le> p} \<subseteq> {p \<in> ?P. node \<le> p}"
      using lt by auto
    moreover have "node \<in> {p \<in> ?P. node \<le> p}" "node \<notin> {p \<in> ?P. c \<le> p}"
      using lt np by simp_all
    ultimately have "{p \<in> ?P. c \<le> p} \<subset> {p \<in> ?P. node \<le> p}"
      by blast
    then have "card {p \<in> ?P. c \<le> p} < card {p \<in> ?P. node \<le> p}"
      using fin by (rule psubset_card_mono [rotated])
    with m True show ?thesis by (simp add: fuel_enough_def)
  qed
qed

lemma build_total:
  assumes acyc: "\<forall>r\<in>set (env_tree env). child r \<in> parent ` set (env_tree env) \<longrightarrow> parent r < child r"
  shows "fuel_enough (env_tree env) depth node \<Longrightarrow> build_hierarchy depth env memo node \<noteq> None"
    and "\<forall>c\<in>set cs. fuel_enough (env_tree env) depth c \<Longrightarrow> build_children depth env memo cs \<noteq> None"
  using acyc
proof (induction depth env memo node and depth env memo cs
    rule: build_hierarchy_build_children.induct)
  case (1 env memo node)
  then show ?case by (simp add: fuel_enough_def split: if_splits)
next
  case (2 depth env memo node)
  let ?tree = "env_tree env"
  obtain sz memo1 where g: "get_node_size ?tree memo node = (sz, memo1)"
    by (cases "get_node_size ?tree memo node")
  show ?case
  proof (cases "sz \<le> 1")
    case True
    with g show ?thesis by simp
  next
    case big: False
    show ?thesis
    proof (cases "parent_children ?tree node")
      case None
      with g big show ?thesis by (simp add: Let_def)
    next
      case (Some cs)
      obtain v memo2 where av: "any_visible ?tree memo1 cs = (v, memo2)"
        by (cases "any_visible ?tree memo1 cs")
      show ?thesis
      proof (cases v)
        case False
        with g big Some av show ?thesis by (simp add: Let_def)
      next
        case True
        have "\<forall>c\<in>set cs. fuel_enough ?tree depth c"
          using fuel_enough_child [OF "2.prems"(2) Some _ "2.prems"(1)] by blast
        from "2.IH" [OF g [symmetric] _ _ _ Some av [symmetric] _ this "2.prems"(2)] big True
        have "build_children depth env memo2 cs \<noteq> None" by simp
        with g big Some av True show ?thesis
          by (auto simp: Let_def split: option.splits)
      qed
    qed
  qed
next
  case (3 depth env memo)
  then show ?case by simp
next
  case (4 depth env memo c cs)
  from "4.IH"(1) [OF _ "4.prems"(2)] "4.prems"(1)
  obtain i1 memo1 where b1: "build_hierarchy depth env memo c = Some (i1, memo1)"
    by fastforce
  from "4.IH"(2) [OF b1 _ _ "4.prems"(2)] "4.prems"(1)
  have "build_children depth env memo1 cs \<noteq> None" by simp
  with b1 show ?case by (auto split: option.splits)
qed


lemma dict_set_fresh: "k \<notin> fst ` set d \<Longrightarrow> dict_set d k v = d @ [(k, v)]"
  by (induction d k v rule: dict_set.induct) auto

lemma fold_dict_set_distinct:
  "distinct (map snd cmap) \<Longrightarrow> snd ` set cmap \<inter> fst ` set d = {} \<Longrightarrow>
     fold (\<lambda>(node, label) d. dict_set d label node) cmap d = d @ map (\<lambda>(n, l). (l, n)) cmap"
proof (induction cmap arbitrary: d)
  case Nil
  then show ?case by simp
next
  case (Cons e cmap)
  obtain n l where e: "e = (n, l)" by (cases e)
  from Cons.prems e have fresh: "l \<notin> fst ` set d" by auto
  have "snd ` set cmap \<inter> fst ` set (d @ [(l, n)]) = {}"
    using Cons.prems e by auto
  with Cons.IH [of "d @ [(l, n)]"] Cons.prems(1) e
  show ?case by (simp add: dict_set_fresh [OF fresh])
qed

lemma final_cluster_label_injective:
  assumes "distinct (map snd cmap)"
  shows "final_cluster_label (cluster_id_to_node cmap) node = map_of cmap node"
proof -
  have c2n: "cluster_id_to_node cmap = map (\<lambda>(n, l). (l, n)) cmap"
    unfolding cluster_id_to_node_def using fold_dict_set_distinct [OF assms, of "[]"] by simp
  have "map_option fst (find (\<lambda>(cid, nid). nid = node) (map (\<lambda>(n, l). (l, n)) xs))
      = map_of xs node" for xs :: "(int \<times> int) list"
    by (induction xs) auto
  then show ?thesis by (simp add: final_cluster_label_def c2n)
qed

lemma root_nodes_props:
  "set (root_nodes tree) = parent ` set tree - child ` set tree"
  "distinct (root_nodes tree)"
  "sorted (rev (root_nodes tree))"
  by (auto simp: root_nodes_def)


lemma memo_ok_empty: "memo_ok tree Map.empty"
  by (simp add: memo_ok_def)

lemma node_size_unfold:
  "node_size tree node =
     (if node \<in> child ` set tree then child_size (last (filter (\<lambda>r. child r = node) tree))
      else if node \<in> parent ` set tree
      then sum_list (map (node_size tree) (children_of tree node))
      else 1)"
  by (subst node_size.simps) (simp add: children_of_def)

lemma hierarchy_items_Some:
  assumes "condensed_tree c = Some tree"
    and "hierarchy_items limit c colors descriptions = Inr (Some items)"
  shows "\<exists>memo. build_children limit
                    \<lparr>env_tree = tree, env_c2n = cluster_id_to_node (cluster_map c),
                     env_colors = colors, env_descriptions = descriptions\<rparr>
                    Map.empty (root_nodes tree) = Some (items, memo)"
  using assms by (auto simp: hierarchy_items_def split: if_splits option.splits)

lemma hierarchy_items_ok:
  assumes "condensed_tree c = Some tree"
    and "hierarchy_items limit c colors descriptions = Inr (Some items)"
  shows "map li_node items = filter (\<lambda>r. 1 < node_size tree r) (root_nodes tree)"
    and "\<forall>x\<in>set (concat (map rendered items)).
           item_ok \<lparr>env_tree = tree, env_c2n = cluster_id_to_node (cluster_map c),
                     env_colors = colors, env_descriptions = descriptions\<rparr> x"
proof -
  let ?env = "\<lparr>env_tree = tree, env_c2n = cluster_id_to_node (cluster_map c),
                     env_colors = colors, env_descriptions = descriptions\<rparr>"
  from hierarchy_items_Some [OF assms] obtain memo
    where b: "build_children limit ?env Map.empty (root_nodes tree) = Some (items, memo)"
    by blast
  have "memo_ok (env_tree ?env) Map.empty" by (simp add: memo_ok_empty)
  from build_refines(2) [OF this b]
  show "map li_node items = filter (\<lambda>r. 1 < node_size tree r) (root_nodes tree)"
    and "\<forall>x\<in>set (concat (map rendered items)). item_ok ?env x"
    by simp_all
qed

lemma hierarchy_items_total:
  assumes "condensed_tree c = Some tree" and "distinct (map child tree)"
    and acyc: "\<forall>r\<in>set tree. child r \<in> parent ` set tree \<longrightarrow> parent r < child r"
    and lim: "card (parent ` set tree) < limit"
  shows "\<exists>items. hierarchy_items limit c colors descriptions = Inr (Some items)"
proof -
  let ?env = "\<lparr>env_tree = tree, env_c2n = cluster_id_to_node (cluster_map c),
                     env_colors = colors, env_descriptions = descriptions\<rparr>"
  have "fuel_enough tree limit n" for n
  proof -
    have "card {p \<in> parent ` set tree. n \<le> p} \<le> card (parent ` set tree)"
      by (rule card_mono) auto
    with lim show ?thesis by (auto simp: fuel_enough_def)
  qed
  then have "\<forall>r\<in>set (root_nodes tree). fuel_enough (env_tree ?env) limit r" by simp
  moreover have "\<forall>r\<in>set (env_tree ?env). child r \<in> parent ` set (env_tree ?env) \<longrightarrow> parent r < child r"
    using acyc by simp
  ultimately have "build_children limit ?env Map.empty (root_nodes tree) \<noteq> None"
    using build_total(2) [of ?env "root_nodes tree" limit Map.empty] by blast
  with assms(1,2) show ?thesis
    by (auto simp: hierarchy_items_def split: option.splits)
qed

lemma root_size_wellformed:
  assumes sizes: "\<forall>r\<in>set tree. 1 \<le> child_size r"
    and two: "\<forall>p\<in>set (root_nodes tree). 2 \<le> length (children_of tree p)"
    and p: "p \<in> set (root_nodes tree)"
  shows "1 < node_size tree p"
proof -
  from p have np: "p \<in> parent ` set tree" "p \<notin> child ` set tree"
    by (simp_all add: root_nodes_props(1))
  have ch: "1 \<le> node_size tree n" if "n \<in> set (children_of tree p)" for n
  proof -
    from that have n: "n \<in> child ` set tree" by (auto simp: children_of_def)
    then have "filter (\<lambda>r. child r = n) tree \<noteq> []" by (auto simp: filter_empty_conv)
    then have "last (filter (\<lambda>r. child r = n) tree) \<in> set (filter (\<lambda>r. child r = n) tree)"
      by (rule last_in_set)
    then have "last (filter (\<lambda>r. child r = n) tree) \<in> set tree" by simp
    with sizes n show ?thesis by (subst node_size_unfold) simp
  qed
  have gen: "int (length ns) \<le> sum_list (map (node_size tree) ns)"
    if "\<forall>n\<in>set ns. 1 \<le> node_size tree n" for ns
    using that by (induction ns) auto
  from gen [of "children_of tree p"] ch two p
  have "2 \<le> sum_list (map (node_size tree) (children_of tree p))" by fastforce
  with np show ?thesis by (subst node_size_unfold) simp
qed


text \<open>
  Claim C2. In the HTML hierarchy export the size computed for a node, under any
  consistent cache and so at every call the export makes, is \<open>node_size\<close>: the recorded
  \<open>child_size\<close> for a node that occurs as a child, otherwise the sum of the sizes of its
  children for a node that occurs as a parent, otherwise 1. Every element of the tree
  view, at any depth, shows a node of size above 1, and its nested elements are the
  node's children of size above 1. The nodes processed at top level are exactly the nodes
  that occur as a parent and never as a child, in descending order; each is rendered when
  its size is above 1, which is every one of them when sizes are at least 1 and a root
  has at least two children. The export returns the tree view when no node occurs twice
  as a child, clusters are numbered after their parents, and the recursion limit exceeds
  the number of parents.
\<close>

theorem hierarchy_sizes_and_roots:
  assumes "condensed_tree c = Some tree"
  shows "memo_ok tree Map.empty
    \<and> (\<forall>memo node. memo_ok tree memo \<longrightarrow>
          fst (get_node_size tree memo node) = node_size tree node
          \<and> memo_ok tree (snd (get_node_size tree memo node)))
    \<and> (\<forall>node. node_size tree node =
          (if node \<in> child ` set tree
           then child_size (last (filter (\<lambda>r. child r = node) tree))
           else if node \<in> parent ` set tree
           then sum_list (map (node_size tree) (children_of tree node))
           else 1))
    \<and> (\<forall>items. hierarchy_items limit c colors descriptions = Inr (Some items) \<longrightarrow>
          (\<forall>x\<in>set (concat (map rendered items)).
              li_size x = node_size tree (li_node x) \<and> 1 < li_size x
              \<and> map li_node (li_children x) =
                  filter (\<lambda>n. 1 < node_size tree n) (children_of tree (li_node x)))
          \<and> map li_node items = filter (\<lambda>r. 1 < node_size tree r) (root_nodes tree)
          \<and> ((\<forall>r\<in>set tree. 1 \<le> child_size r)
               \<and> (\<forall>p\<in>set (root_nodes tree). 2 \<le> length (children_of tree p))
               \<longrightarrow> map li_node items = root_nodes tree))
    \<and> set (root_nodes tree) = parent ` set tree - child ` set tree
    \<and> distinct (root_nodes tree) \<and> sorted (rev (root_nodes tree))
    \<and> (distinct (map child tree)
         \<and> (\<forall>r\<in>set tree. child r \<in> parent ` set tree \<longrightarrow> parent r < child r)
         \<and> card (parent ` set tree) < limit
         \<longrightarrow> (\<exists>items. hierarchy_items limit c colors descriptions = Inr (Some items)))"
proof (intro conjI allI impI ballI)
  show "memo_ok tree Map.empty" by (rule memo_ok_empty)
next
  fix memo node assume "memo_ok tree memo"
  from get_node_size_refines(1) [OF this, of node]
  show "fst (get_node_size tree memo node) = node_size tree node"
    and "memo_ok tree (snd (get_node_size tree memo node))" by simp_all
next
  fix node
  show "node_size tree node =
          (if node \<in> child ` set tree
           then child_size (last (filter (\<lambda>r. child r = node) tree))
           else if node \<in> parent ` set tree
           then sum_list (map (node_size tree) (children_of tree node))
           else 1)"
    by (rule node_size_unfold)
next
  fix items x
  assume h: "hierarchy_items limit c colors descriptions = Inr (Some items)"
    and x: "x \<in> set (concat (map rendered items))"
  from hierarchy_items_ok(2) [OF assms h] x
  have "item_ok \<lparr>env_tree = tree, env_c2n = cluster_id_to_node (cluster_map c),
                     env_colors = colors, env_descriptions = descriptions\<rparr> x" by blast
  then show "li_size x = node_size tree (li_node x)" and "1 < li_size x"
    and "map li_node (li_children x) =
                  filter (\<lambda>n. 1 < node_size tree n) (children_of tree (li_node x))"
    by (simp_all add: item_ok_def)
next
  fix items
  assume h: "hierarchy_items limit c colors descriptions = Inr (Some items)"
  from hierarchy_items_ok(1) [OF assms h]
  show m: "map li_node items = filter (\<lambda>r. 1 < node_size tree r) (root_nodes tree)" .
  assume wf: "(\<forall>r\<in>set tree. 1 \<le> child_size r)
               \<and> (\<forall>p\<in>set (root_nodes tree). 2 \<le> length (children_of tree p))"
  then have "\<forall>p\<in>set (root_nodes tree). 1 < node_size tree p"
    using root_size_wellformed [of tree] by blast
  with m show "map li_node items = root_nodes tree" by simp
next
  show "set (root_nodes tree) = parent ` set tree - child ` set tree"
    "distinct (root_nodes tree)" "sorted (rev (root_nodes tree))"
    by (rule root_nodes_props)+
next
  assume "distinct (map child tree)
         \<and> (\<forall>r\<in>set tree. child r \<in> parent ` set tree \<longrightarrow> parent r < child r)
         \<and> card (parent ` set tree) < limit"
  with hierarchy_items_total [OF assms, of limit colors descriptions]
  show "\<exists>items. hierarchy_items limit c colors descriptions = Inr (Some items)" by blast
qed

text \<open>
  Claim C3. The cluster map of the clusterer gives each selected tree node one flat label
  and no label to two nodes. In the exported hierarchy an element, at any depth, whose
  node the map associates with label \<open>L\<close> carries the link to \<open>L\<close>, with the colour of
  \<open>L\<close> (grey when it has none) and the first three keywords of \<open>L\<close>; an element whose
  node the map does not associate with a label carries no link.
\<close>

theorem hierarchy_cluster_links:
  assumes "hierarchy_items limit c colors descriptions = Inr (Some items)"
    and "distinct (map fst (cluster_map c))" and "distinct (map snd (cluster_map c))"
  shows "\<forall>x\<in>set (concat (map rendered items)).
      (\<forall>L. (li_node x, L) \<in> set (cluster_map c) \<longrightarrow>
         li_link x = Some \<lparr>link_label = L,
            link_color = (case map_of colors L of Some col \<Rightarrow> col | None \<Rightarrow> ''#6c757d''),
            link_keywords =
              take 3 (case map_of descriptions L of Some d \<Rightarrow> d_keywords d | None \<Rightarrow> [])\<rparr>)
      \<and> (li_node x \<notin> fst ` set (cluster_map c) \<longrightarrow> li_link x = None)"
proof
  fix x assume x: "x \<in> set (concat (map rendered items))"
  from assms(1) obtain tree where t: "condensed_tree c = Some tree"
    by (auto simp: hierarchy_items_def split: option.splits)
  from hierarchy_items_ok(2) [OF t assms(1)] x
  have "item_ok \<lparr>env_tree = tree, env_c2n = cluster_id_to_node (cluster_map c),
                     env_colors = colors, env_descriptions = descriptions\<rparr> x" by blast
  then have link: "li_link x = map_option (make_link colors descriptions)
      (map_of (cluster_map c) (li_node x))"
    by (simp add: item_ok_def final_cluster_label_injective [OF assms(3)])
  show "(\<forall>L. (li_node x, L) \<in> set (cluster_map c) \<longrightarrow>
         li_link x = Some \<lparr>link_label = L,
            link_color = (case map_of colors L of Some col \<Rightarrow> col | None \<Rightarrow> ''#6c757d''),
            link_keywords =
              take 3 (case map_of descriptions L of Some d \<Rightarrow> d_keywords d | None \<Rightarrow> [])\<rparr>)
      \<and> (li_node x \<notin> fst ` set (cluster_map c) \<longrightarrow> li_link x = None)"
  proof (intro conjI allI impI)
    fix L assume "(li_node x, L) \<in> set (cluster_map c)"
    with assms(2) have "map_of (cluster_map c) (li_node x) = Some L"
      by (rule map_of_is_SomeI)
    with link show "li_link x = Some \<lparr>link_label = L,
            link_color = (case map_of colors L of Some col \<Rightarrow> col | None \<Rightarrow> ''#6c757d''),
            link_keywords =
              take 3 (case map_of descriptions L of Some d \<Rightarrow> d_keywords d | None \<Rightarrow> [])\<rparr>"
      by (simp add: make_link_def)
  next
    assume "li_node x \<notin> fst ` set (cluster_map c)"
    then have "map_of (cluster_map c) (li_node x) = None"
      by (simp add: map_of_eq_None_iff)
    with link show "li_link x = None" by simp
  qed
qed

lemma ex_hierarchy:
  "hierarchy_items 10 ex_hdbscan ex_colors ex_descriptions =
     Inr (Some [Li 5 5 0 True None
         [Li 6 3 (1 / 2) False
           (Some \<lparr>link_label = 0, link_color = ''#e53d3d'',
                link_keywords = [ustr ''war'', ustr ''the'', ustr ''began'']\<rparr>) [],
          Li 7 2 (1 / 2) False
           (Some \<lparr>link_label = 1, link_color = ''#3de5e5'',
                link_keywords = [ustr ''1919'', ustr ''treaty'']\<rparr>) []]])"
  by code_simp


lemma ex_tree_facts:
  "condensed_tree ex_hdbscan = Some ex_tree"
  "distinct (map child ex_tree)"
  "\<forall>r\<in>set ex_tree. child r \<in> parent ` set ex_tree \<longrightarrow> parent r < child r"
  "parent ` set ex_tree = {5, 6, 7}"
  "root_nodes ex_tree = [5]"
  "cluster_map ex_hdbscan = [(6, 0), (7, 1)]"
  by (simp_all add: ex_hdbscan_def ex_tree_def root_nodes_def)

lemma ex_node_sizes:
  "node_size ex_tree 5 = 5" "node_size ex_tree 6 = 3" "node_size ex_tree 0 = 1"
  "node_size ex_tree 99 = 1"
  by (subst node_size_unfold, simp add: ex_tree_def children_of_def,
      (subst node_size_unfold, simp add: ex_tree_def children_of_def)+)+

theorem hierarchy_sizes_and_roots_witness:
  "condensed_tree ex_hdbscan = Some ex_tree
   \<and> (\<exists>items. hierarchy_items 10 ex_hdbscan ex_colors ex_descriptions = Inr (Some items)
         \<and> map li_node items = [5]
         \<and> map li_node (concat (map rendered items)) = [5, 6, 7])
   \<and> fst (get_node_size ex_tree Map.empty 5) = 5
   \<and> node_size ex_tree 6 = 3 \<and> node_size ex_tree 0 = 1 \<and> node_size ex_tree 99 = 1
   \<and> root_nodes ex_tree = [5]"
proof -
  note t = hierarchy_sizes_and_roots [OF ex_tree_facts(1), of 10 ex_colors ex_descriptions]
  have "card (parent ` set ex_tree) < 10"
    unfolding ex_tree_facts(4) by simp
  with t ex_tree_facts(2,3)
  obtain items where h: "hierarchy_items 10 ex_hdbscan ex_colors ex_descriptions = Inr (Some items)"
    by blast
  with t have "map li_node items = filter (\<lambda>r. 1 < node_size ex_tree r) (root_nodes ex_tree)"
    by blast
  then have top: "map li_node items = [5]"
    by (simp add: ex_tree_facts(5) ex_node_sizes)
  from h have all: "map li_node (concat (map rendered items)) = [5, 6, 7]"
    unfolding ex_hierarchy by auto
  from t have "fst (get_node_size ex_tree Map.empty 5) = node_size ex_tree 5"
    by blast
  with h top all ex_node_sizes ex_tree_facts(1,5) show ?thesis by auto
qed

theorem hierarchy_cluster_links_witness:
  "distinct (map fst (cluster_map ex_hdbscan)) \<and> distinct (map snd (cluster_map ex_hdbscan))
   \<and> (\<exists>items. hierarchy_items 10 ex_hdbscan ex_colors ex_descriptions = Inr (Some items)
        \<and> map (\<lambda>x. (li_node x, map_option link_label (li_link x)))
              (concat (map rendered items)) = [(5, None), (6, Some 0), (7, Some 1)])"
proof -
  have d: "distinct (map fst (cluster_map ex_hdbscan))" "distinct (map snd (cluster_map ex_hdbscan))"
    by (simp_all add: ex_tree_facts(6))
  note t = hierarchy_cluster_links [OF ex_hierarchy d]
  have r: "map (\<lambda>x. (li_node x, map_option link_label (li_link x)))
      (concat (map rendered [Li 5 5 0 True None
         [Li 6 3 (1 / 2) False
           (Some \<lparr>link_label = 0, link_color = ''#e53d3d'',
                link_keywords = [ustr ''war'', ustr ''the'', ustr ''began'']\<rparr>) [],
          Li 7 2 (1 / 2) False
           (Some \<lparr>link_label = 1, link_color = ''#3de5e5'',
                link_keywords = [ustr ''1919'', ustr ''treaty'']\<rparr>) []]]))
      = [(5, None), (6, Some 0), (7, Some 1)]"
    by simp
  from t d r ex_hierarchy show ?thesis by simp
qed

section \<open>The exporters leave the table and the tree alone\<close>

lemma extract_cluster_keywords_frame:
  assumes "extract_cluster_keywords ucd sorter viz n m = Inr v"
  shows "v = viz\<lparr>cluster_descriptions := cluster_descriptions v\<rparr>"
  using assms
  by (auto simp: extract_cluster_keywords_def extract_with_def Let_def
      split: option.splits if_splits)

lemma generate_cluster_colors_frame:
  assumes "generate_cluster_colors palette viz = Inr v"
  shows "v = viz\<lparr>color_map := color_map v\<rparr>"
  using assms
  by (auto simp: generate_cluster_colors_def Let_def split: option.splits if_splits)

lemma export_text_frame:
  assumes "export_hierarchical_clustering_results ucd sorter limit now viz path files
      = (err, viz', files')"
  shows "viz' = viz\<lparr>cluster_descriptions := cluster_descriptions viz'\<rparr>"
    and "cluster_descriptions viz \<noteq> None \<Longrightarrow> viz' = viz"
    and "\<forall>p. p \<noteq> path \<longrightarrow> files' p = files p"
proof -
  show "viz' = viz\<lparr>cluster_descriptions := cluster_descriptions viz'\<rparr>"
    using assms extract_cluster_keywords_frame [of ucd sorter viz 5 2]
    by (auto simp: export_hierarchical_clustering_results_def split: sum.splits if_splits)
  show "cluster_descriptions viz \<noteq> None \<Longrightarrow> viz' = viz"
    using assms
    by (auto simp: export_hierarchical_clustering_results_def split: sum.splits if_splits)
  show "\<forall>p. p \<noteq> path \<longrightarrow> files' p = files p"
    using assms
    by (auto simp: export_hierarchical_clustering_results_def split: sum.splits if_splits)
qed

lemma export_html_frame:
  assumes "export_hierarchical_report_html ucd sorter palette limit now viz path files
      = (err, viz', files')"
  shows "viz' = viz\<lparr>cluster_descriptions := cluster_descriptions viz',
                       color_map := color_map viz'\<rparr>"
    and "cluster_descriptions viz \<noteq> None \<Longrightarrow> cluster_descriptions viz' = cluster_descriptions viz"
    and "color_map viz \<noteq> None \<Longrightarrow> color_map viz' = color_map viz"
    and "\<forall>p. p \<noteq> path \<longrightarrow> files' p = files p"
proof -
  define viz1 where "viz1 = (case (if cluster_descriptions viz = None
      then extract_cluster_keywords ucd sorter viz 5 2 else Inr viz) of Inl e \<Rightarrow> viz | Inr v \<Rightarrow> v)"
  have v1: "viz1 = viz\<lparr>cluster_descriptions := cluster_descriptions viz1\<rparr>"
    and v1': "cluster_descriptions viz \<noteq> None \<Longrightarrow> viz1 = viz"
    using extract_cluster_keywords_frame [of ucd sorter viz 5 2]
    by (auto simp: viz1_def split: sum.splits)
  define viz2 where "viz2 = (case (if color_map viz1 = None
      then generate_cluster_colors palette viz1 else Inr viz1) of Inl e \<Rightarrow> viz1 | Inr v \<Rightarrow> v)"
  have v2: "viz2 = viz1\<lparr>color_map := color_map viz2\<rparr>"
    and v2': "color_map viz1 \<noteq> None \<Longrightarrow> viz2 = viz1"
    using generate_cluster_colors_frame [of palette viz1]
    by (auto simp: viz2_def split: sum.splits)
  have cases: "viz' = viz \<or> viz' = viz1 \<or> viz' = viz2"
    using assms
    by (auto simp: export_hierarchical_report_html_def viz1_def viz2_def
        split: sum.splits if_splits)
  have c1: "cluster_descriptions viz2 = cluster_descriptions viz1"
    by (subst v2) simp
  have c2: "color_map viz1 = color_map viz"
    by (subst v1) simp
  obtain ds where e1: "viz1 = viz\<lparr>cluster_descriptions := ds\<rparr>"
    using v1 by blast
  obtain cm where e2: "viz2 = viz1\<lparr>color_map := cm\<rparr>"
    using v2 by blast
  from cases show "viz' = viz\<lparr>cluster_descriptions := cluster_descriptions viz',
                       color_map := color_map viz'\<rparr>"
    unfolding e2 e1 by (elim disjE) simp_all
  from cases v1' c1 show "cluster_descriptions viz \<noteq> None \<Longrightarrow>
      cluster_descriptions viz' = cluster_descriptions viz"
    by auto
  from cases v2' c2 show "color_map viz \<noteq> None \<Longrightarrow> color_map viz' = color_map viz"
    by auto
  show "\<forall>p. p \<noteq> path \<longrightarrow> files' p = files p"
    using assms
    by (auto simp: export_hierarchical_report_html_def split: sum.splits if_splits)
qed


text \<open>
  Claim C8. Whatever the state of the visualizer, and whether or not an exception ends
  the export, \<open>export_hierarchical_clustering_results\<close> and
  \<open>export_hierarchical_report_html\<close> leave the embedding table (its rows and all its
  columns) and the clusterer with its condensed tree unchanged. Of the visualizer they
  change nothing but the caches \<open>cluster_descriptions\<close> (both) and \<open>color_map\<close> (the HTML
  exporter), and those only when absent; of the files, none but the report at
  \<open>output_path\<close>.
\<close>

theorem exporters_frame:
  "(\<forall>err viz' files'.
      export_hierarchical_clustering_results ucd sorter limit now viz path files = (err, viz', files')
      \<longrightarrow> df viz' = df viz \<and> clusterer viz' = clusterer viz
        \<and> viz' = viz\<lparr>cluster_descriptions := cluster_descriptions viz'\<rparr>
        \<and> (cluster_descriptions viz \<noteq> None \<longrightarrow> viz' = viz)
        \<and> (\<forall>p. p \<noteq> path \<longrightarrow> files' p = files p))
   \<and> (\<forall>err viz' files'.
      export_hierarchical_report_html ucd sorter palette limit now viz path files = (err, viz', files')
      \<longrightarrow> df viz' = df viz \<and> clusterer viz' = clusterer viz
        \<and> viz' = viz\<lparr>cluster_descriptions := cluster_descriptions viz',
                         color_map := color_map viz'\<rparr>
        \<and> (cluster_descriptions viz \<noteq> None \<longrightarrow>
               cluster_descriptions viz' = cluster_descriptions viz)
        \<and> (color_map viz \<noteq> None \<longrightarrow> color_map viz' = color_map viz)
        \<and> (\<forall>p. p \<noteq> path \<longrightarrow> files' p = files p))"
proof (intro conjI allI impI)
  fix err viz' files'
  assume e: "export_hierarchical_clustering_results ucd sorter limit now viz path files
      = (err, viz', files')"
  note f = export_text_frame [OF e]
  show "viz' = viz\<lparr>cluster_descriptions := cluster_descriptions viz'\<rparr>" by (rule f(1))
  show "df viz' = df viz" "clusterer viz' = clusterer viz" by (subst f(1), simp)+
  show "viz' = viz" if "cluster_descriptions viz \<noteq> None" using that by (rule f(2))
  show "files' p = files p" if "p \<noteq> path" for p using that f(3) by blast
next
  fix err viz' files'
  assume e: "export_hierarchical_report_html ucd sorter palette limit now viz path files
      = (err, viz', files')"
  note f = export_html_frame [OF e]
  show "viz' = viz\<lparr>cluster_descriptions := cluster_descriptions viz',
                         color_map := color_map viz'\<rparr>" by (rule f(1))
  show "df viz' = df viz" "clusterer viz' = clusterer viz" by (subst f(1), simp)+
  show "cluster_descriptions viz' = cluster_descriptions viz" if "cluster_descriptions viz \<noteq> None"
    using that by (rule f(2))
  show "color_map viz' = color_map viz" if "color_map viz \<noteq> None"
    using that by (rule f(3))
  show "files' p = files p" if "p \<noteq> path" for p using that f(4) by blast
qed

lemma ex_clustered_state:
  "n_clusters ex_clustered = Some 2" "n_noise ex_clustered = Some 1"
  "n_samples ex_clustered = 5" "clusterer ex_clustered = Some ex_hdbscan"
  "cluster_descriptions ex_clustered = None" "color_map ex_clustered = None"
  by (simp_all add: ex_clustered_def ex_viz_def)

lemma ex_export_text:
  "\<exists>r ds. export_hierarchical_clustering_results ex_unicode ex_sorter 10 now ex_clustered path Map.empty
     = (None, ex_clustered\<lparr>cluster_descriptions := Some ds\<rparr>, [path \<mapsto> TextReport r])"
proof -
  obtain ds where x: "extract_cluster_keywords ex_unicode ex_sorter ex_clustered 5 2
      = Inr (ex_clustered\<lparr>cluster_descriptions := Some ds\<rparr>)"
    unfolding extract_cluster_keywords_def extract_with_result [OF ex_clustered_columns(1,2)]
    by blast
  obtain ls ok where pc: "print_children 10 ex_tree 0 [] (root_nodes ex_tree) = (ls, ok)"
    by (cases "print_children 10 ex_tree 0 [] (root_nodes ex_tree)")
  have "\<exists>r. text_report_body 10 now (ex_clustered\<lparr>cluster_descriptions := Some ds\<rparr>) = Inr r"
    by (simp add: text_report_body_def ex_clustered_state ex_tree_facts(1) pc text_details_def
        ex_clustered_columns ex_cluster_ids bind_err_def)
  then show ?thesis
    by (auto simp: export_hierarchical_clustering_results_def ex_clustered_state x)
qed


lemma ex_export_html:
  "\<exists>r ds cm. export_hierarchical_report_html ex_unicode ex_sorter ex_palette 10 now ex_clustered path Map.empty
     = (None, ex_clustered\<lparr>cluster_descriptions := Some ds, color_map := Some cm\<rparr>,
        [path \<mapsto> HtmlReport r])"
proof -
  obtain ds where x: "extract_cluster_keywords ex_unicode ex_sorter ex_clustered 5 2
      = Inr (ex_clustered\<lparr>cluster_descriptions := Some ds\<rparr>)"
    unfolding extract_cluster_keywords_def extract_with_result [OF ex_clustered_columns(1,2)]
    by blast
  let ?v1 = "ex_clustered\<lparr>cluster_descriptions := Some ds\<rparr>"
  obtain cm where g: "generate_cluster_colors ex_palette ?v1 = Inr (?v1\<lparr>color_map := Some cm\<rparr>)"
    by (simp add: generate_cluster_colors_def ex_clustered_state ex_clustered_columns
        ex_cluster_ids Let_def)
  let ?v2 = "?v1\<lparr>color_map := Some cm\<rparr>"
  have "card (parent ` set ex_tree) < 10"
    unfolding ex_tree_facts(4) by simp
  from hierarchy_items_total [OF ex_tree_facts(1,2,3) this, of cm ds]
  obtain items where h: "hierarchy_items 10 ex_hdbscan cm ds = Inr (Some items)" by blast
  have "\<exists>r. html_report_body 10 now ?v2 = Inr r"
    by (simp add: html_report_body_def ex_clustered_state h cluster_cards_def
        ex_clustered_columns ex_cluster_ids bind_err_def)
  then obtain r where b: "html_report_body 10 now ?v2 = Inr r" by blast
  have "export_hierarchical_report_html ex_unicode ex_sorter ex_palette 10 now ex_clustered path
      Map.empty = (None, ?v2, [path \<mapsto> HtmlReport r])"
    by (simp add: export_hierarchical_report_html_def ex_clustered_state x g b)
  then show ?thesis by blast
qed

theorem exporters_frame_witness:
  "(\<exists>r viz'. export_hierarchical_clustering_results ex_unicode ex_sorter 10 ''now'' ex_clustered
        ''report.txt'' Map.empty = (None, viz', [''report.txt'' \<mapsto> TextReport r])
       \<and> df viz' = df ex_clustered \<and> clusterer viz' = Some ex_hdbscan
       \<and> cluster_descriptions viz' \<noteq> None \<and> cluster_descriptions ex_clustered = None)
   \<and> (\<exists>r viz'. export_hierarchical_report_html ex_unicode ex_sorter ex_palette 10 ''now'' ex_clustered
        ''report.html'' Map.empty = (None, viz', [''report.html'' \<mapsto> HtmlReport r])
       \<and> df viz' = df ex_clustered \<and> clusterer viz' = Some ex_hdbscan
       \<and> color_map viz' \<noteq> None \<and> color_map ex_clustered = None)"
proof -
  from ex_export_text [of "''now''" "''report.txt''"]
  obtain r ds where t: "export_hierarchical_clustering_results ex_unicode ex_sorter 10 ''now'' ex_clustered
        ''report.txt'' Map.empty
      = (None, ex_clustered\<lparr>cluster_descriptions := Some ds\<rparr>, [''report.txt'' \<mapsto> TextReport r])"
    by blast
  from ex_export_html [of "''now''" "''report.html''"]
  obtain r' ds' cm where h: "export_hierarchical_report_html ex_unicode ex_sorter ex_palette 10 ''now''
        ex_clustered ''report.html'' Map.empty
      = (None, ex_clustered\<lparr>cluster_descriptions := Some ds', color_map := Some cm\<rparr>,
         [''report.html'' \<mapsto> HtmlReport r'])"
    by blast
  from exporters_frame [where ucd = ex_unicode and sorter = ex_sorter and limit = 10
      and now = "''now''" and viz = ex_clustered and path = "''report.txt''"
      and files = Map.empty and palette = ex_palette] t
    exporters_frame [where ucd = ex_unicode and sorter = ex_sorter and limit = 10
      and now = "''now''" and viz = ex_clustered and path = "''report.html''"
      and files = Map.empty and palette = ex_palette] h
  have d1: "df (ex_clustered\<lparr>cluster_descriptions := Some ds\<rparr>) = df ex_clustered"
    and d2: "df (ex_clustered\<lparr>cluster_descriptions := Some ds', color_map := Some cm\<rparr>)
      = df ex_clustered"
    by blast+
  have A: "\<exists>r viz'. export_hierarchical_clustering_results ex_unicode ex_sorter 10 ''now''
        ex_clustered ''report.txt'' Map.empty = (None, viz', [''report.txt'' \<mapsto> TextReport r])
       \<and> df viz' = df ex_clustered \<and> clusterer viz' = Some ex_hdbscan
       \<and> cluster_descriptions viz' \<noteq> None \<and> cluster_descriptions ex_clustered = None"
    using t d1
    by (intro exI [of _ r] exI [of _ "ex_clustered\<lparr>cluster_descriptions := Some ds\<rparr>"])
      (simp add: ex_clustered_state)
  have B: "\<exists>r viz'. export_hierarchical_report_html ex_unicode ex_sorter ex_palette 10 ''now''
        ex_clustered ''report.html'' Map.empty = (None, viz', [''report.html'' \<mapsto> HtmlReport r])
       \<and> df viz' = df ex_clustered \<and> clusterer viz' = Some ex_hdbscan
       \<and> color_map viz' \<noteq> None \<and> color_map ex_clustered = None"
    using h d2
    by (intro exI [of _ r']
        exI [of _ "ex_clustered\<lparr>cluster_descriptions := Some ds', color_map := Some cm\<rparr>"])
      (simp add: ex_clustered_state)
  from A B show ?thesis by (rule conjI)
qed

section \<open>Pair generation: the scan and the files written\<close>

lemma pair_positions_stop:
  "\<not> int i < int (length data) - 1 \<Longrightarrow> pair_positions data i = []"
  by (subst pair_positions.simps) simp

lemma pair_positions_pair:
  "int i < int (length data) - 1 \<Longrightarrow>
   role (data ! i) = Some ''Interviewer'' \<and> role (data ! (i + 1)) = Some ''Interviewee'' \<Longrightarrow>
   pair_positions data i = i # pair_positions data (i + 2)"
  by (subst pair_positions.simps) simp

lemma pair_positions_skip:
  "int i < int (length data) - 1 \<Longrightarrow>
   \<not> (role (data ! i) = Some ''Interviewer'' \<and> role (data ! (i + 1)) = Some ''Interviewee'') \<Longrightarrow>
   pair_positions data i = pair_positions data (i + 1)"
  by (subst pair_positions.simps) auto

lemma group_pairs_stop:
  "\<not> int i < int (length data) - 1 \<Longrightarrow> group_pairs data i acc = acc"
  by (subst group_pairs.simps) simp

lemma group_pairs_pair:
  "int i < int (length data) - 1 \<Longrightarrow>
   role (data ! i) = Some ''Interviewer'' \<and> role (data ! (i + 1)) = Some ''Interviewee'' \<Longrightarrow>
   group_pairs data i acc = group_pairs data (i + 2) (acc @ [[data ! i, data ! (i + 1)]])"
  by (subst group_pairs.simps) (simp add: Let_def)

lemma group_pairs_skip:
  "int i < int (length data) - 1 \<Longrightarrow>
   \<not> (role (data ! i) = Some ''Interviewer'' \<and> role (data ! (i + 1)) = Some ''Interviewee'') \<Longrightarrow>
   group_pairs data i acc = group_pairs data (i + 1) acc"
  by (subst group_pairs.simps) (auto simp: Let_def)

lemma group_pairs_positions:
  "group_pairs data i acc = acc @ map (\<lambda>j. [data ! j, data ! (j + 1)]) (pair_positions data i)"
proof (induction data i arbitrary: acc rule: pair_positions.induct)
  case (1 data i)
  show ?case
  proof (cases "int i < int (length data) - 1")
    case False
    then show ?thesis
      by (simp add: group_pairs_stop pair_positions_stop)
  next
    case inb: True
    show ?thesis
    proof (cases "role (data ! i) = Some ''Interviewer'' \<and> role (data ! (i + 1)) = Some ''Interviewee''")
      case True
      show ?thesis
        unfolding group_pairs_pair [OF inb True] pair_positions_pair [OF inb True]
          "1.IH"(1) [OF inb True] by simp
    next
      case False
      show ?thesis
        unfolding group_pairs_skip [OF inb False] pair_positions_skip [OF inb False]
          "1.IH"(2) [OF inb False] by simp
    qed
  qed
qed

lemma pair_positions_props:
  "j \<in> set (pair_positions data i) \<Longrightarrow>
     i \<le> j \<and> j + 1 < length data \<and> role (data ! j) = Some ''Interviewer''
       \<and> role (data ! (j + 1)) = Some ''Interviewee''"
proof (induction data i rule: pair_positions.induct)
  case (1 data i)
  show ?case
  proof (cases "int i < int (length data) - 1")
    case False
    with "1.prems" show ?thesis
      by (simp add: pair_positions_stop)
  next
    case inb: True
    show ?thesis
    proof (cases "role (data ! i) = Some ''Interviewer'' \<and> role (data ! (i + 1)) = Some ''Interviewee''")
      case True
      from "1.prems" have "j = i \<or> j \<in> set (pair_positions data (i + 2))"
        unfolding pair_positions_pair [OF inb True] by simp
      then show ?thesis
      proof
        assume "j = i"
        with True inb show ?thesis by simp
      next
        assume "j \<in> set (pair_positions data (i + 2))"
        from "1.IH"(1) [OF inb True this] show ?thesis by simp
      qed
    next
      case False
      from "1.prems" have "j \<in> set (pair_positions data (i + 1))"
        unfolding pair_positions_skip [OF inb False] .
      from "1.IH"(2) [OF inb False this] show ?thesis by simp
    qed
  qed
qed

lemma pair_positions_spaced:
  "sorted_wrt (\<lambda>a b. a + 2 \<le> b) (pair_positions data i)"
proof (induction data i rule: pair_positions.induct)
  case (1 data i)
  show ?case
  proof (cases "int i < int (length data) - 1")
    case False
    then show ?thesis
      by (simp add: pair_positions_stop)
  next
    case inb: True
    show ?thesis
    proof (cases "role (data ! i) = Some ''Interviewer'' \<and> role (data ! (i + 1)) = Some ''Interviewee''")
      case True
      have "\<forall>b\<in>set (pair_positions data (i + 2)). i + 2 \<le> b"
        using pair_positions_props [of _ data "i + 2"] by blast
      moreover have "sorted_wrt (\<lambda>a b. a + 2 \<le> b) (pair_positions data (i + 2))"
        using inb True by (rule "1.IH"(1))
      ultimately show ?thesis
        unfolding pair_positions_pair [OF inb True] by simp
    next
      case False
      show ?thesis
        unfolding pair_positions_skip [OF inb False] using inb False by (rule "1.IH"(2))
    qed
  qed
qed

lemma write_pairs_enumerate:
  "write_pairs pairs (enumerate k xs) (files, c) =
     (files @ map (\<lambda>(idx, cur). (pair_file_name (idx + 1),
         \<lparr>previous_utterances = (if idx = 0 then None else Some (pairs ! (idx - 1))),
          current_utterance = cur\<rparr>)) (enumerate k xs), c + length xs)"
  by (induction xs arbitrary: k files c) (simp_all add: Let_def)

lemma map_enumerate_nth:
  "map (\<lambda>(idx, cur). f idx cur) (enumerate 0 xs) = map (\<lambda>k. f k (xs ! k)) [0..<length xs]"
  by (rule nth_equalityI) (simp_all add: nth_enumerate_eq)

lemma write_pairs_all:
  "write_pairs pairs (enumerate 0 pairs) ([], 0) =
     (map (\<lambda>k. (pair_file_name (k + 1),
         \<lparr>previous_utterances = (if k = 0 then None else Some (pairs ! (k - 1))),
          current_utterance = pairs ! k\<rparr>)) [0..<length pairs], length pairs)"
  unfolding write_pairs_enumerate
  using map_enumerate_nth [of "\<lambda>idx cur. (pair_file_name (idx + 1),
         \<lparr>previous_utterances = (if idx = 0 then None else Some (pairs ! (idx - 1))),
          current_utterance = cur\<rparr>)" pairs]
  by simp

text \<open>
  Claim C10. The pairs are formed by one left-to-right scan (the recursion of
  \<open>pair_positions\<close>: a pair at \<open>i\<close> and an advance by two when the roles at \<open>i\<close> and
  \<open>i + 1\<close> are Interviewer and Interviewee, an advance by one otherwise, stopping before
  the last index). Every pair is an Interviewer item immediately followed in the input by
  an Interviewee item; the positions of the pairs increase by at least two, so the pairs
  are disjoint and in input order; the file for pair \<open>k + 1\<close> holds pair \<open>k + 1\<close> as
  \<open>current_utterance\<close> and pair \<open>k\<close> as \<open>previous_utterances\<close>, the first file holds
  \<open>null\<close> there; and the returned count is the number of pairs.
\<close>

theorem generate_pairs_scan:
  "(let ps = pair_positions data 0; pairs = group_pairs data 0 [] in
      pairs = map (\<lambda>j. [data ! j, data ! (j + 1)]) ps
    \<and> (\<forall>j\<in>set ps. j + 1 < length data \<and> role (data ! j) = Some ''Interviewer''
          \<and> role (data ! (j + 1)) = Some ''Interviewee'')
    \<and> sorted_wrt (\<lambda>a b. a + 2 \<le> b) ps
    \<and> generate_previous_current_pairs data =
        (map (\<lambda>k. (pair_file_name (k + 1),
            \<lparr>previous_utterances = (if k = 0 then None else Some (pairs ! (k - 1))),
             current_utterance = pairs ! k\<rparr>)) [0..<length pairs], length pairs))"
proof -
  define pairs where "pairs = group_pairs data 0 []"
  have a: "pairs = map (\<lambda>j. [data ! j, data ! (j + 1)]) (pair_positions data 0)"
    by (simp add: pairs_def group_pairs_positions)
  have b: "\<forall>j\<in>set (pair_positions data 0). j + 1 < length data
      \<and> role (data ! j) = Some ''Interviewer'' \<and> role (data ! (j + 1)) = Some ''Interviewee''"
    using pair_positions_props [of _ data 0] by blast
  have c: "generate_previous_current_pairs data =
        (map (\<lambda>k. (pair_file_name (k + 1),
            \<lparr>previous_utterances = (if k = 0 then None else Some (pairs ! (k - 1))),
             current_utterance = pairs ! k\<rparr>)) [0..<length pairs], length pairs)"
    unfolding generate_previous_current_pairs_def Let_def pairs_def [symmetric]
    by (rule write_pairs_all)
  from a b c pair_positions_spaced [of data 0] show ?thesis
    unfolding Let_def pairs_def by blast
qed

theorem generate_pairs_scan_witness:
  "pair_positions ex_data 0 = [0, 5]
   \<and> role (ex_data ! 5) = Some ''Interviewer'' \<and> role (ex_data ! 6) = Some ''Interviewee''
   \<and> map fst (fst (generate_previous_current_pairs ex_data)) =
       [''Previous-current pair - 1.json'', ''Previous-current pair - 2.json'']
   \<and> map (previous_utterances \<circ> snd) (fst (generate_previous_current_pairs ex_data)) =
       [None, Some [ex_data ! 0, ex_data ! 1]]
   \<and> snd (generate_previous_current_pairs ex_data) = 2"
proof -
  have ps: "pair_positions ex_data 0 = [0, 5]"
    by (simp add: ex_data_def pair_positions.simps)
  have names: "pair_file_name (Suc 0) = ''Previous-current pair - 1.json''"
    "pair_file_name (Suc (Suc 0)) = ''Previous-current pair - 2.json''"
    by (simp_all add: pair_file_name_def str_nat.simps digit_char_def)
  have gp: "group_pairs ex_data 0 [] = [[ex_data ! 0, ex_data ! 1], [ex_data ! 5, ex_data ! 6]]"
    by (simp add: group_pairs_positions ps)
  have roles: "role (ex_data ! 5) = Some ''Interviewer''" "role (ex_data ! 6) = Some ''Interviewee''"
    by (simp_all add: ex_data_def)
  from generate_pairs_scan [of ex_data]
  have "generate_previous_current_pairs ex_data =
      (map (\<lambda>k. (pair_file_name (k + 1),
          \<lparr>previous_utterances =
             (if k = 0 then None else Some (group_pairs ex_data 0 [] ! (k - 1))),
           current_utterance = group_pairs ex_data 0 [] ! k\<rparr>))
        [0..<length (group_pairs ex_data 0 [])], length (group_pairs ex_data 0 []))"
    unfolding Let_def by blast
  then have "generate_previous_current_pairs ex_data =
      ([(''Previous-current pair - 1.json'',
          \<lparr>previous_utterances = None, current_utterance = [ex_data ! 0, ex_data ! 1]\<rparr>),
        (''Previous-current pair - 2.json'',
          \<lparr>previous_utterances = Some [ex_data ! 0, ex_data ! 1],
           current_utterance = [ex_data ! 5, ex_data ! 6]\<rparr>)], 2)"
    unfolding gp by (simp add: upt_rec names)
  with ps roles show ?thesis by simp
qed

end
